theory Spec2Isabelle
  imports Main "HOL-Library.Word" "HOL-Library.Sublist" "HOL-Library.Multiset"
begin

section \<open>JavaScript strings and values\<close>

text \<open>
  A JavaScript string is a sequence of UTF-16 code units. The regular expressions of
  \<^verbatim>\<open>server.js\<close> carry no \<^verbatim>\<open>u\<close> flag, so they too work on code units.
\<close>

type_synonym jschar = "16 word"
type_synonym jsstring = "jschar list"

definition js :: "string \<Rightarrow> jsstring" where
  "js s = map of_char s"

text \<open>
  A value of the parsed JSON request body: a string, or some other JSON value (number,
  boolean, null, array, object), kept opaque under a tag.
\<close>

datatype jsvalue = Str jsstring | Other nat

text \<open>
  A Number that \<^verbatim>\<open>parseInt\<close> returns: \<^verbatim>\<open>NaN\<close>, an integer that a double holds exactly
  (magnitude at most \<open>2^53\<close>), or the double nearest to a larger integer (possibly an
  infinity), of which only the integer it approximates is kept.
\<close>

datatype jsnumber = NaN | Num int | Approx int

text \<open>The only exception the helpers could raise: a method call on \<^verbatim>\<open>undefined\<close>.\<close>

datatype js_error = TypeError

text \<open>
  \<^verbatim>\<open>\s\<close>, and what \<^verbatim>\<open>trim\<close> and \<^verbatim>\<open>parseInt\<close> strip: ECMAScript's WhiteSpace and
  LineTerminator code points (TAB, LF, VT, FF, CR, SP, NBSP, U+1680, U+2000..U+200A,
  U+2028, U+2029, U+202F, U+205F, U+3000, U+FEFF).
\<close>

definition is_space :: "jschar \<Rightarrow> bool" where
  "is_space c \<longleftrightarrow> c \<in> set [9, 10, 11, 12, 13, 32, 160, 5760,
     8192, 8193, 8194, 8195, 8196, 8197, 8198, 8199, 8200, 8201, 8202,
     8232, 8233, 8239, 8287, 12288, 65279]"

text \<open>What \<^verbatim>\<open>.\<close> refuses without the \<^verbatim>\<open>s\<close> flag: LF, CR, U+2028, U+2029.\<close>

definition is_line_terminator :: "jschar \<Rightarrow> bool" where
  "is_line_terminator c \<longleftrightarrow> c \<in> set [10, 13, 8232, 8233]"

definition is_digit :: "jschar \<Rightarrow> bool" where
  "is_digit c \<longleftrightarrow> 48 \<le> c \<and> c \<le> 57"

text \<open>\<^verbatim>\<open>String.prototype.trim\<close>.\<close>

definition trim :: "jsstring \<Rightarrow> jsstring" where
  "trim s = rev (dropWhile is_space (rev (dropWhile is_space s)))"

text \<open>
  \<^verbatim>\<open>s.split("\n")\<close>: the pieces between the line feeds; the empty string gives one
  empty piece.
\<close>

fun split_nl :: "jsstring \<Rightarrow> jsstring list" where
  "split_nl [] = [[]]"
| "split_nl (c # cs) =
     (if c = 10 then [] # split_nl cs
      else (case split_nl cs of [] \<Rightarrow> [[c]] | l # ls \<Rightarrow> (c # l) # ls))"

subsection \<open>parseInt\<close>

text \<open>
  \<^verbatim>\<open>parseInt(string)\<close> with no radix: leading white space is skipped, a sign is read,
  a \<^verbatim>\<open>0x\<close> prefix selects radix 16 (radix 10 otherwise), and the longest run of digits of
  that radix is the value; no digit at all gives \<^verbatim>\<open>NaN\<close>.
\<close>

definition digit_value :: "jschar \<Rightarrow> nat" where
  "digit_value c =
     (if 48 \<le> c \<and> c \<le> 57 then unat c - 48
      else if 97 \<le> c \<and> c \<le> 122 then unat c - 87
      else if 65 \<le> c \<and> c \<le> 90 then unat c - 55
      else 36)"

definition radix_digit :: "nat \<Rightarrow> jschar \<Rightarrow> bool" where
  "radix_digit R c \<longleftrightarrow> digit_value c < R"

fun digits_value :: "nat \<Rightarrow> nat \<Rightarrow> jsstring \<Rightarrow> nat" where
  "digits_value R acc [] = acc"
| "digits_value R acc (c # cs) = digits_value R (acc * R + digit_value c) cs"

definition to_number :: "int \<Rightarrow> jsnumber" where
  "to_number v = (if \<bar>v\<bar> \<le> 9007199254740992 then Num v else Approx v)"

definition parseInt :: "jsstring \<Rightarrow> jsnumber" where
  "parseInt inputString =
     (let S = dropWhile is_space inputString;
          sign = (if take 1 S = js ''-'' then - 1 else 1 :: int);
          S = (if take 1 S = js ''+'' \<or> take 1 S = js ''-'' then drop 1 S else S);
          hex = (take 2 S = js ''0x'' \<or> take 2 S = js ''0X'');
          R = (if hex then 16 else 10);
          S = (if hex then drop 2 S else S);
          Z = takeWhile (radix_digit R) S
      in if Z = [] then NaN else to_number (sign * int (digits_value R 0 Z)))"

section \<open>Regular expressions\<close>

text \<open>
  The fragment of ECMAScript regular expressions that \<^verbatim>\<open>server.js\<close> uses: literal
  text, character classes, greedy and lazy repetition of a class, capture groups,
  concatenation, \<^verbatim>\<open>^\<close> and \<^verbatim>\<open>$\<close> (no \<^verbatim>\<open>m\<close> flag: start and end of input).
\<close>

datatype cclass =
    AnyChar          \<comment> \<open>\<^verbatim>\<open>[\s\S]\<close>, and \<^verbatim>\<open>.\<close> under the \<^verbatim>\<open>s\<close> flag\<close>
  | Dot              \<comment> \<open>\<^verbatim>\<open>.\<close> without the \<^verbatim>\<open>s\<close> flag\<close>
  | Digit            \<comment> \<open>\<^verbatim>\<open>\d\<close>\<close>
  | Space            \<comment> \<open>\<^verbatim>\<open>\s\<close>\<close>
  | OneOf "jschar list"  \<comment> \<open>\<^verbatim>\<open>[...]\<close>, or a single escaped character\<close>

fun in_class :: "cclass \<Rightarrow> jschar \<Rightarrow> bool" where
  "in_class AnyChar c = True"
| "in_class Dot c = (\<not> is_line_terminator c)"
| "in_class Digit c = is_digit c"
| "in_class Space c = is_space c"
| "in_class (OneOf cs) c = (c \<in> set cs)"

datatype regex =
    Lit jsstring     \<comment> \<open>literal characters\<close>
  | One cclass       \<comment> \<open>one character of a class\<close>
  | Star cclass      \<comment> \<open>\<^verbatim>\<open>*\<close>, greedy\<close>
  | LazyStar cclass  \<comment> \<open>\<^verbatim>\<open>*?\<close>, lazy\<close>
  | Plus cclass      \<comment> \<open>\<^verbatim>\<open>+\<close>, greedy\<close>
  | Group nat regex  \<comment> \<open>capture group number \<open>k\<close>\<close>
  | Seq regex regex
  | Bol              \<comment> \<open>\<^verbatim>\<open>^\<close>\<close>
  | Eol              \<comment> \<open>\<^verbatim>\<open>$\<close>\<close>

text \<open>
  The numbers of characters a repetition may take, in the order in which backtracking
  tries them: a lazy one from none upwards, a greedy one from the longest run downwards.
\<close>

fun lazy_lens :: "cclass \<Rightarrow> jsstring \<Rightarrow> nat list" where
  "lazy_lens cl [] = [0]"
| "lazy_lens cl (c # cs) = 0 # (if in_class cl c then map Suc (lazy_lens cl cs) else [])"

fun greedy_lens :: "cclass \<Rightarrow> jsstring \<Rightarrow> nat list" where
  "greedy_lens cl [] = [0]"
| "greedy_lens cl (c # cs) = (if in_class cl c then map Suc (greedy_lens cl cs) else []) @ [0]"

text \<open>
  A matcher state: the position in the input, the input from there on, and the captures
  so far (\<open>None\<close> is \<^verbatim>\<open>undefined\<close>: the group took no part in the match).
  \<open>rmatch r st\<close> lists every state in which \<open>r\<close> can finish from \<open>st\<close>, in backtracking
  order, so that its head is the match the engine reports.
\<close>

type_synonym captures = "nat \<Rightarrow> jsstring option"
type_synonym mstate = "nat \<times> jsstring \<times> captures"

fun rmatch :: "regex \<Rightarrow> mstate \<Rightarrow> mstate list" where
  "rmatch (Lit l) (p, s, c) =
     (if take (length l) s = l then [(p + length l, drop (length l) s, c)] else [])"
| "rmatch (One cl) (p, s, c) =
     (case s of [] \<Rightarrow> [] | x # xs \<Rightarrow> if in_class cl x then [(Suc p, xs, c)] else [])"
| "rmatch (Star cl) (p, s, c) = map (\<lambda>n. (p + n, drop n s, c)) (greedy_lens cl s)"
| "rmatch (LazyStar cl) (p, s, c) = map (\<lambda>n. (p + n, drop n s, c)) (lazy_lens cl s)"
| "rmatch (Plus cl) (p, s, c) =
     (case s of [] \<Rightarrow> []
      | x # xs \<Rightarrow> if in_class cl x
                 then map (\<lambda>n. (Suc p + n, drop n xs, c)) (greedy_lens cl xs) else [])"
| "rmatch (Group k r) (p, s, c) =
     map (\<lambda>(p', s', c'). (p', s', c'(k \<mapsto> take (p' - p) s))) (rmatch r (p, s, c))"
| "rmatch (Seq r1 r2) st = concat (map (rmatch r2) (rmatch r1 st))"
| "rmatch Bol (p, s, c) = (if p = 0 then [(p, s, c)] else [])"
| "rmatch Eol (p, s, c) = (if s = [] then [(p, s, c)] else [])"

text \<open>
  The result of \<^verbatim>\<open>RegExp.prototype.exec\<close>: where the match starts and ends, and the
  capture groups (\<^verbatim>\<open>m[1]\<close>, \<^verbatim>\<open>m[2]\<close>, ...).
\<close>

record match_result =
  index :: nat
  end_index :: nat
  groups :: captures

definition no_groups :: captures where
  "no_groups = (\<lambda>k. None)"

text \<open>The engine tries every start position from the left and reports the first match.\<close>

fun exec_at :: "regex \<Rightarrow> nat \<Rightarrow> jsstring \<Rightarrow> match_result option" where
  "exec_at r p [] =
     (case rmatch r (p, [], no_groups) of
        [] \<Rightarrow> None
      | (e, s', c) # _ \<Rightarrow> Some \<lparr>index = p, end_index = e, groups = c\<rparr>)"
| "exec_at r p (x # xs) =
     (case rmatch r (p, x # xs, no_groups) of
        [] \<Rightarrow> exec_at r (Suc p) xs
      | (e, s', c) # _ \<Rightarrow> Some \<lparr>index = p, end_index = e, groups = c\<rparr>)"

text \<open>\<^verbatim>\<open>text.match(re)\<close> for a regular expression without the \<^verbatim>\<open>g\<close> flag.\<close>

definition str_match :: "jsstring \<Rightarrow> regex \<Rightarrow> match_result option" where
  "str_match text r = exec_at r 0 text"

text \<open>\<^verbatim>\<open>s.replace(re, "")\<close>: the first match is cut out.\<close>

definition replace_empty :: "jsstring \<Rightarrow> regex \<Rightarrow> jsstring" where
  "replace_empty s r =
     (case str_match s r of None \<Rightarrow> s | Some m \<Rightarrow> take (index m) s @ drop (end_index m) s)"

section \<open>The response structurer\<close>

record recommendation =
  title :: "jsstring option"
  description :: "jsstring option"
  match :: jsnumber

record analysis =
  summary :: jsstring
  recommendations :: "recommendation list"
  nextSteps :: "jsstring list"

text \<open>
  A method call such as \<^verbatim>\<open>m[1].trim()\<close> raises a TypeError when \<^verbatim>\<open>m[1]\<close> is
  \<^verbatim>\<open>undefined\<close>; an exception leaves the function at once.
\<close>

definition receiver :: "jsstring option \<Rightarrow> js_error + jsstring" where
  "receiver v = (case v of None \<Rightarrow> Inl TypeError | Some s \<Rightarrow> Inr s)"

definition and_then :: "'e + 'a \<Rightarrow> ('a \<Rightarrow> 'e + 'b) \<Rightarrow> 'e + 'b" where
  "and_then x f = (case x of Inl e \<Rightarrow> Inl e | Inr v \<Rightarrow> f v)"

text \<open>\<^verbatim>\<open>parseInt(m[3])\<close>: an \<^verbatim>\<open>undefined\<close> argument is first turned into a string.\<close>

definition parseInt_group :: "jsstring option \<Rightarrow> jsnumber" where
  "parseInt_group v = (case v of None \<Rightarrow> parseInt (js ''undefined'') | Some s \<Rightarrow> parseInt s)"

subsection \<open>\<^verbatim>\<open>parseAnalysis\<close>, lines 293 to 312\<close>

text \<open>\<^verbatim>\<open>/\*\*CAREER PROFILE ANALYSIS:\*\*([\s\S]*?)\*\*TOP 3/\<close>\<close>

definition summary_re :: regex where
  "summary_re =
     Seq (Lit (js ''**CAREER PROFILE ANALYSIS:**''))
    (Seq (Group 1 (LazyStar AnyChar))
         (Lit (js ''**TOP 3'')))"

text \<open>\<^verbatim>\<open>/\*\*TOP 3 CAREER RECOMMENDATIONS:\*\*([\s\S]*?)\*\*NEXT/\<close>\<close>

definition recs_re :: regex where
  "recs_re =
     Seq (Lit (js ''**TOP 3 CAREER RECOMMENDATIONS:**''))
    (Seq (Group 1 (LazyStar AnyChar))
         (Lit (js ''**NEXT'')))"

text \<open>\<^verbatim>\<open>/^\d+\. (.*?) - (.*?) Match: (\d+)%/\<close>\<close>

definition line_re :: regex where
  "line_re =
     Seq Bol
    (Seq (Plus Digit)
    (Seq (Lit (js ''. ''))
    (Seq (Group 1 (LazyStar Dot))
    (Seq (Lit (js '' - ''))
    (Seq (Group 2 (LazyStar Dot))
    (Seq (Lit (js '' Match: ''))
    (Seq (Group 3 (Plus Digit))
         (Lit (js ''%'')))))))))"

text \<open>\<^verbatim>\<open>/\*\*NEXT STEPS:\*\*([\s\S]*)$/\<close>\<close>

definition nextSteps_re :: regex where
  "nextSteps_re =
     Seq (Lit (js ''**NEXT STEPS:**''))
    (Seq (Group 1 (Star AnyChar))
         Eol)"

text \<open>\<^verbatim>\<open>/^[-\<bullet>]\s*/\<close>, the second character of the class being U+2022.\<close>

definition bullet_re :: regex where
  "bullet_re = Seq Bol (Seq (One (OneOf [45, 8226])) (Star Space))"

text \<open>The body of the \<^verbatim>\<open>forEach\<close> over the lines of the recommendation section.\<close>

definition push_line :: "recommendation list \<Rightarrow> jsstring \<Rightarrow> recommendation list" where
  "push_line recs line =
     (case str_match line line_re of
        None \<Rightarrow> recs
      | Some m \<Rightarrow> recs @ [\<lparr>title = groups m 1, description = groups m 2,
                           match = parseInt_group (groups m 3)\<rparr>])"

definition parseAnalysis :: "jsstring \<Rightarrow> js_error + analysis" where
  "parseAnalysis text =
     (let structured = \<lparr>summary = [], recommendations = [], nextSteps = []\<rparr> in
      and_then
        (case str_match text summary_re of
           None \<Rightarrow> Inr structured
         | Some summaryMatch \<Rightarrow>
             and_then (receiver (groups summaryMatch 1))
               (\<lambda>g. Inr (structured\<lparr>summary := trim g\<rparr>)))
        (\<lambda>structured.
      and_then
        (case str_match text recs_re of
           None \<Rightarrow> Inr structured
         | Some recsMatch \<Rightarrow>
             and_then (receiver (groups recsMatch 1))
               (\<lambda>g. Inr (structured\<lparr>recommendations :=
                     foldl push_line (recommendations structured) (split_nl (trim g))\<rparr>)))
        (\<lambda>structured.
        (case str_match text nextSteps_re of
           None \<Rightarrow> Inr structured
         | Some nextStepsMatch \<Rightarrow>
             and_then (receiver (groups nextStepsMatch 1))
               (\<lambda>g. Inr (structured\<lparr>nextSteps :=
                     map (\<lambda>l. trim (replace_empty l bullet_re)) (split_nl (trim g))\<rparr>))))))"

subsection \<open>\<^verbatim>\<open>parseAnalysis\<close>, lines 647 to 682\<close>

text \<open>
  The second server variant in \<^verbatim>\<open>server.js\<close> spells the headers out in full, lets
  line feeds surround each section, uses the \<^verbatim>\<open>s\<close> flag (so \<^verbatim>\<open>.\<close> takes every
  character) and trims title and description.
\<close>

text \<open>\<^verbatim>\<open>/\*\*CAREER PROFILE ANALYSIS:\*\*\n*(.*?)\n*\*\*TOP 3 CAREER RECOMMENDATIONS:\*\*/s\<close>\<close>

definition summary_re_alt :: regex where
  "summary_re_alt =
     Seq (Lit (js ''**CAREER PROFILE ANALYSIS:**''))
    (Seq (Star (OneOf [10]))
    (Seq (Group 1 (LazyStar AnyChar))
    (Seq (Star (OneOf [10]))
         (Lit (js ''**TOP 3 CAREER RECOMMENDATIONS:**'')))))"

text \<open>\<^verbatim>\<open>/\*\*TOP 3 CAREER RECOMMENDATIONS:\*\*\n*(.*?)\n*\*\*NEXT STEPS:\*\*/s\<close>\<close>

definition recs_re_alt :: regex where
  "recs_re_alt =
     Seq (Lit (js ''**TOP 3 CAREER RECOMMENDATIONS:**''))
    (Seq (Star (OneOf [10]))
    (Seq (Group 1 (LazyStar AnyChar))
    (Seq (Star (OneOf [10]))
         (Lit (js ''**NEXT STEPS:**'')))))"

text \<open>\<^verbatim>\<open>/\*\*NEXT STEPS:\*\*\n*(.*?)$/s\<close>\<close>

definition nextSteps_re_alt :: regex where
  "nextSteps_re_alt =
     Seq (Lit (js ''**NEXT STEPS:**''))
    (Seq (Star (OneOf [10]))
    (Seq (Group 1 (LazyStar AnyChar))
         Eol))"

text \<open>
  \<^verbatim>\<open>/^[-...]\s*/\<close>: in this variant the bullet is stored mis-encoded, so the class
  holds the hyphen and the three characters U+00E2, U+20AC and U+00A2.
\<close>

definition bullet_re_alt :: regex where
  "bullet_re_alt = Seq Bol (Seq (One (OneOf [45, 226, 8364, 162])) (Star Space))"

definition push_line_alt ::
  "recommendation list \<Rightarrow> jsstring \<Rightarrow> js_error + recommendation list" where
  "push_line_alt recs line =
     (case str_match line line_re of
        None \<Rightarrow> Inr recs
      | Some recMatch \<Rightarrow>
          and_then (receiver (groups recMatch 1)) (\<lambda>t.
          and_then (receiver (groups recMatch 2)) (\<lambda>d.
            Inr (recs @ [\<lparr>title = Some (trim t), description = Some (trim d),
                           match = parseInt_group (groups recMatch 3)\<rparr>]))))"

fun forEach_alt ::
  "recommendation list \<Rightarrow> jsstring list \<Rightarrow> js_error + recommendation list" where
  "forEach_alt recs [] = Inr recs"
| "forEach_alt recs (line # recLines) =
     and_then (push_line_alt recs line) (\<lambda>recs'. forEach_alt recs' recLines)"

definition parseAnalysis_alt :: "jsstring \<Rightarrow> js_error + analysis" where
  "parseAnalysis_alt analysisText =
     (let structuredAnalysis = \<lparr>summary = [], recommendations = [], nextSteps = []\<rparr> in
      and_then
        (case str_match analysisText summary_re_alt of
           None \<Rightarrow> Inr structuredAnalysis
         | Some summaryMatch \<Rightarrow>
             and_then (receiver (groups summaryMatch 1))
               (\<lambda>g. Inr (structuredAnalysis\<lparr>summary := trim g\<rparr>)))
        (\<lambda>structuredAnalysis.
      and_then
        (case str_match analysisText recs_re_alt of
           None \<Rightarrow> Inr structuredAnalysis
         | Some recsMatch \<Rightarrow>
             and_then (receiver (groups recsMatch 1)) (\<lambda>g.
             and_then (forEach_alt (recommendations structuredAnalysis) (split_nl (trim g)))
               (\<lambda>recs. Inr (structuredAnalysis\<lparr>recommendations := recs\<rparr>))))
        (\<lambda>structuredAnalysis.
        (case str_match analysisText nextSteps_re_alt of
           None \<Rightarrow> Inr structuredAnalysis
         | Some nextStepsMatch \<Rightarrow>
             and_then (receiver (groups nextStepsMatch 1))
               (\<lambda>g. Inr (structuredAnalysis\<lparr>nextSteps :=
                     map (\<lambda>line. trim (replace_empty line bullet_re_alt))
                       (split_nl (trim g))\<rparr>))))))"

section \<open>The profile extractor\<close>

record profile =
  interests :: "jsstring list"
  skills :: "jsstring list"
  experience :: jsvalue
  workStyle :: jsvalue
  careerGoals :: jsstring
  industry :: jsvalue

text \<open>
  The body of the \<^verbatim>\<open>forEach\<close> over \<^verbatim>\<open>Object.entries(answers)\<close>: one property key
  (always a string) and its value. \<^verbatim>\<open>switch\<close> and \<^verbatim>\<open>===\<close> compare without
  conversion, so \<^verbatim>\<open>NaN\<close> selects no case and only a string equals a string.
\<close>

definition profile_step :: "profile \<Rightarrow> jsstring \<times> jsvalue \<Rightarrow> profile" where
  "profile_step profile entry =
     (let id = fst entry; answer = snd entry; n = parseInt id in
      if n = Num 1 then
        (if answer = Str (js ''analytical'')
           then profile\<lparr>interests := interests profile @ [js ''Problem Solving'', js ''Analysis'']\<rparr>
         else if answer = Str (js ''creative'')
           then profile\<lparr>interests := interests profile @ [js ''Creative Work'', js ''Design'']\<rparr>
         else if answer = Str (js ''people-oriented'')
           then profile\<lparr>interests := interests profile @ [js ''People Management'', js ''Communication'']\<rparr>
         else if answer = Str (js ''leadership'')
           then profile\<lparr>interests := interests profile @ [js ''Leadership'', js ''Management'']\<rparr>
         else profile)
      else if n = Num 2 then profile\<lparr>workStyle := answer\<rparr>
      else if n = Num 3 then
        (if answer = Str (js ''financial'')
           then profile\<lparr>careerGoals := js ''Financial success and stability''\<rparr>
         else if answer = Str (js ''impact'')
           then profile\<lparr>careerGoals := js ''Positive social impact''\<rparr>
         else if answer = Str (js ''growth'')
           then profile\<lparr>careerGoals := js ''Personal and professional growth''\<rparr>
         else if answer = Str (js ''recognition'')
           then profile\<lparr>careerGoals := js ''Achievement and recognition''\<rparr>
         else profile)
      else if n = Num 4 then profile\<lparr>industry := answer\<rparr>
      else if n = Num 7 then
        (if answer = Str (js ''technical'')
           then profile\<lparr>skills := skills profile @ [js ''Technical Skills'', js ''Programming'']\<rparr>
         else if answer = Str (js ''communication'')
           then profile\<lparr>skills := skills profile @ [js ''Communication'', js ''Presentation'']\<rparr>
         else if answer = Str (js ''leadership-skills'')
           then profile\<lparr>skills := skills profile @ [js ''Leadership'', js ''Management'']\<rparr>
         else if answer = Str (js ''creative-skills'')
           then profile\<lparr>skills := skills profile @ [js ''Creative Skills'', js ''Design'']\<rparr>
         else profile)
      else if n = Num 10 then profile\<lparr>experience := answer\<rparr>
      else profile)"

text \<open>
  \<^verbatim>\<open>extractProfileFromAnswers\<close>, lines 249 to 291, on the list
  \<^verbatim>\<open>Object.entries(answers)\<close> in its enumeration order.
\<close>

definition extractProfileFromAnswers :: "(jsstring \<times> jsvalue) list \<Rightarrow> profile" where
  "extractProfileFromAnswers entries =
     foldl profile_step
       \<lparr>interests = [], skills = [], experience = Str [], workStyle = Str [],
        careerGoals = [], industry = Str []\<rparr>
       entries"

section \<open>Auxiliary notions for the profile extractor\<close>

text \<open>
  The entries whose key \<^verbatim>\<open>parseInt\<close> reads as question \<open>n\<close>, in enumeration order.
  Several keys of one object may read as the same question: \<^verbatim>\<open>"3"\<close>, \<^verbatim>\<open>"03"\<close> and
  \<^verbatim>\<open>"3rd"\<close> all give 3.
\<close>

definition entries_for :: "int \<Rightarrow> (jsstring \<times> jsvalue) list \<Rightarrow> (jsstring \<times> jsvalue) list" where
  "entries_for n entries = filter (\<lambda>e. parseInt (fst e) = Num n) entries"

text \<open>The tags that the answer to question 1 appends to \<open>interests\<close>.\<close>

definition interest_tags :: "jsvalue \<Rightarrow> jsstring list" where
  "interest_tags answer =
     (if answer = Str (js ''analytical'') then [js ''Problem Solving'', js ''Analysis'']
      else if answer = Str (js ''creative'') then [js ''Creative Work'', js ''Design'']
      else if answer = Str (js ''people-oriented'') then [js ''People Management'', js ''Communication'']
      else if answer = Str (js ''leadership'') then [js ''Leadership'', js ''Management'']
      else [])"

text \<open>The tags that the answer to question 7 appends to \<open>skills\<close>.\<close>

definition skill_tags :: "jsvalue \<Rightarrow> jsstring list" where
  "skill_tags answer =
     (if answer = Str (js ''technical'') then [js ''Technical Skills'', js ''Programming'']
      else if answer = Str (js ''communication'') then [js ''Communication'', js ''Presentation'']
      else if answer = Str (js ''leadership-skills'') then [js ''Leadership'', js ''Management'']
      else if answer = Str (js ''creative-skills'') then [js ''Creative Skills'', js ''Design'']
      else [])"

text \<open>The sentence that the answer to question 3 assigns to \<open>careerGoals\<close>, if any.\<close>

definition goal_sentence :: "jsvalue \<Rightarrow> jsstring option" where
  "goal_sentence answer =
     (if answer = Str (js ''financial'') then Some (js ''Financial success and stability'')
      else if answer = Str (js ''impact'') then Some (js ''Positive social impact'')
      else if answer = Str (js ''growth'') then Some (js ''Personal and professional growth'')
      else if answer = Str (js ''recognition'') then Some (js ''Achievement and recognition'')
      else None)"

text \<open>The last element of a list, or a default for the empty list.\<close>

definition last_or :: "'a \<Rightarrow> 'a list \<Rightarrow> 'a" where
  "last_or d xs = (if xs = [] then d else last xs)"

section \<open>Auxiliary notions for the response structurer\<close>

text \<open>
  The index of the first occurrence of \<open>pat\<close> in a list, scanning from the left
  (\<^verbatim>\<open>String.prototype.indexOf\<close>, with \<open>None\<close> for \<open>-1\<close>).
\<close>

fun find_sub :: "'a list \<Rightarrow> 'a list \<Rightarrow> nat option" where
  "find_sub pat [] = (if pat = [] then Some 0 else None)"
| "find_sub pat (c # cs) =
     (if take (length pat) (c # cs) = pat then Some 0 else map_option Suc (find_sub pat cs))"

text \<open>
  The text strictly between the first occurrence of an opening marker and the first
  occurrence of a closing marker after it; \<open>None\<close> when either is not found.
\<close>

definition section_between :: "jsstring \<Rightarrow> jsstring \<Rightarrow> jsstring \<Rightarrow> jsstring option" where
  "section_between opening closing text =
     (case find_sub opening text of
        None \<Rightarrow> None
      | Some i \<Rightarrow>
          (let rest = drop (i + length opening) text in
           case find_sub closing rest of
             None \<Rightarrow> None
           | Some j \<Rightarrow> Some (take j rest)))"

text \<open>The text after the first occurrence of an opening marker.\<close>

definition section_after :: "jsstring \<Rightarrow> jsstring \<Rightarrow> jsstring option" where
  "section_after opening text =
     (case find_sub opening text of
        None \<Rightarrow> None
      | Some i \<Rightarrow> Some (drop (i + length opening) text))"

text \<open>The match reported for a start position \<open>i\<close>: the first state of the search.\<close>

definition first_state :: "nat \<Rightarrow> mstate list \<Rightarrow> match_result option" where
  "first_state i sts =
     (case sts of [] \<Rightarrow> None
      | st # _ \<Rightarrow> Some \<lparr>index = i, end_index = fst st, groups = snd (snd st)\<rparr>)"

text \<open>
  What a match attempt leaves in group \<open>k\<close>: \<open>None\<close> without a match, \<open>Some None\<close> for
  a match in which the group is \<^verbatim>\<open>undefined\<close>.
\<close>

definition captured :: "nat \<Rightarrow> match_result option \<Rightarrow> jsstring option option" where
  "captured k mo = (case mo of None \<Rightarrow> None | Some m \<Rightarrow> Some (groups m k))"

text \<open>
  The shape \<^verbatim>\<open><ordinal>. <title> - <description> Match: <integer>%\<close> with which a
  recommendation line has to begin: ordinal and integer are non-empty runs of decimal
  digits, title and description hold no line terminator.
\<close>

definition line_shape :: "jsstring \<Rightarrow> bool" where
  "line_shape line \<longleftrightarrow>
     (\<exists>ordinal t d percent rest.
        line = ordinal @ js ''. '' @ t @ js '' - '' @ d @ js '' Match: '' @ percent @ js ''%'' @ rest \<and>
        ordinal \<noteq> [] \<and> (\<forall>x\<in>set ordinal. is_digit x) \<and>
        (\<forall>x\<in>set t. \<not> is_line_terminator x) \<and>
        (\<forall>x\<in>set d. \<not> is_line_terminator x) \<and>
        percent \<noteq> [] \<and> (\<forall>x\<in>set percent. is_digit x))"

text \<open>The record that the loop body pushes for one line, if the line matches.\<close>

definition line_record :: "jsstring \<Rightarrow> recommendation option" where
  "line_record line =
     (case str_match line line_re of
        None \<Rightarrow> None
      | Some m \<Rightarrow> Some \<lparr>title = groups m 1, description = groups m 2,
                         match = parseInt_group (groups m 3)\<rparr>)"

text \<open>The pattern of a recommendation line after its \<^verbatim>\<open>^\<close>.\<close>

definition line_tail :: regex where
  "line_tail =
     Seq (Plus Digit)
    (Seq (Lit (js ''. ''))
    (Seq (Group 1 (LazyStar Dot))
    (Seq (Lit (js '' - ''))
    (Seq (Group 2 (LazyStar Dot))
    (Seq (Lit (js '' Match: ''))
    (Seq (Group 3 (Plus Digit))
         (Lit (js ''%''))))))))"

text \<open>The same for the second variant, which trims title and description.\<close>

definition line_record_alt :: "jsstring \<Rightarrow> recommendation option" where
  "line_record_alt line =
     map_option (\<lambda>r. r\<lparr>title := map_option trim (title r),
                          description := map_option trim (description r)\<rparr>)
       (line_record line)"

text \<open>The three section headers of the template.\<close>

definition summary_header :: jsstring where
  "summary_header = js ''**CAREER PROFILE ANALYSIS:**''"

definition recommendations_header :: jsstring where
  "recommendations_header = js ''**TOP 3 CAREER RECOMMENDATIONS:**''"

definition nextSteps_header :: jsstring where
  "nextSteps_header = js ''**NEXT STEPS:**''"

text \<open>
  Example texts. The first has the first two headers and one well-formed recommendation
  line but no third header; in the second \<^verbatim>\<open>**NEXT\<close> occurs before the third header;
  the only recommendation line of the third claims 150 percent.
\<close>

definition unfinished_text :: jsstring where
  "unfinished_text = js ''**CAREER PROFILE ANALYSIS:** Curious. **TOP 3 CAREER RECOMMENDATIONS:**\<newline>1. Chef - Cooks. Match: 90%''"

definition early_next_text :: jsstring where
  "early_next_text = js ''**TOP 3 CAREER RECOMMENDATIONS:**\<newline>**NEXT UP**\<newline>1. Chef - Cooks. Match: 90%\<newline>**NEXT STEPS:**''"

definition overfull_text :: jsstring where
  "overfull_text = js ''**TOP 3 CAREER RECOMMENDATIONS:**\<newline>1. Chef - Cooks. Match: 150%\<newline>**NEXT STEPS:**''"

section \<open>Properties of the profile extractor\<close>

lemma last_or_simps [simp]:
  "last_or d [] = d" "last_or d (xs @ [x]) = x" "last_or (last_or d xs) ys = last_or d (xs @ ys)"
  by (auto simp: last_or_def)

lemma last_or_Cons: "last_or d (x # xs) = last_or x xs"
  by (simp add: last_or_def)

text \<open>What one step does to each field.\<close>

lemma profile_step_fields:
  "interests (profile_step p e) =
     interests p @ (if parseInt (fst e) = Num 1 then interest_tags (snd e) else [])"
  "skills (profile_step p e) =
     skills p @ (if parseInt (fst e) = Num 7 then skill_tags (snd e) else [])"
  "workStyle (profile_step p e) = (if parseInt (fst e) = Num 2 then snd e else workStyle p)"
  "industry (profile_step p e) = (if parseInt (fst e) = Num 4 then snd e else industry p)"
  "experience (profile_step p e) = (if parseInt (fst e) = Num 10 then snd e else experience p)"
  "careerGoals (profile_step p e) =
     (if parseInt (fst e) = Num 3
      then (case goal_sentence (snd e) of None \<Rightarrow> careerGoals p | Some g \<Rightarrow> g)
      else careerGoals p)"
proof -
  define n where "n = parseInt (fst e)"
  consider "n = Num 1" | "n = Num 2" | "n = Num 3" | "n = Num 4" | "n = Num 7" | "n = Num 10"
    | "n \<noteq> Num 1" "n \<noteq> Num 2" "n \<noteq> Num 3" "n \<noteq> Num 4" "n \<noteq> Num 7" "n \<noteq> Num 10"
    by blast
  then have "interests (profile_step p e) =
       interests p @ (if n = Num 1 then interest_tags (snd e) else []) \<and>
     skills (profile_step p e) =
       skills p @ (if n = Num 7 then skill_tags (snd e) else []) \<and>
     workStyle (profile_step p e) = (if n = Num 2 then snd e else workStyle p) \<and>
     industry (profile_step p e) = (if n = Num 4 then snd e else industry p) \<and>
     experience (profile_step p e) = (if n = Num 10 then snd e else experience p) \<and>
     careerGoals (profile_step p e) =
       (if n = Num 3
        then (case goal_sentence (snd e) of None \<Rightarrow> careerGoals p | Some g \<Rightarrow> g)
        else careerGoals p)"
  proof cases
    case 1
    then have "parseInt (fst e) = Num 1" by (simp add: n_def)
    then show ?thesis using 1 by (simp add: profile_step_def Let_def interest_tags_def)
  next
    case 2
    then have "parseInt (fst e) = Num 2" by (simp add: n_def)
    then show ?thesis using 2 by (simp add: profile_step_def Let_def)
  next
    case 3
    then have "parseInt (fst e) = Num 3" by (simp add: n_def)
    then show ?thesis using 3 by (simp add: profile_step_def Let_def goal_sentence_def)
  next
    case 4
    then have "parseInt (fst e) = Num 4" by (simp add: n_def)
    then show ?thesis using 4 by (simp add: profile_step_def Let_def)
  next
    case 5
    then have "parseInt (fst e) = Num 7" by (simp add: n_def)
    then show ?thesis using 5 by (simp add: profile_step_def Let_def skill_tags_def)
  next
    case 6
    then have "parseInt (fst e) = Num 10" by (simp add: n_def)
    then show ?thesis using 6 by (simp add: profile_step_def Let_def)
  next
    case 7
    then have "parseInt (fst e) \<noteq> Num 1" "parseInt (fst e) \<noteq> Num 2" "parseInt (fst e) \<noteq> Num 3"
      "parseInt (fst e) \<noteq> Num 4" "parseInt (fst e) \<noteq> Num 7" "parseInt (fst e) \<noteq> Num 10"
      by (simp_all add: n_def)
    then show ?thesis using 7 by (simp add: profile_step_def Let_def)
  qed
  then show
    "interests (profile_step p e) =
       interests p @ (if parseInt (fst e) = Num 1 then interest_tags (snd e) else [])"
    "skills (profile_step p e) =
       skills p @ (if parseInt (fst e) = Num 7 then skill_tags (snd e) else [])"
    "workStyle (profile_step p e) = (if parseInt (fst e) = Num 2 then snd e else workStyle p)"
    "industry (profile_step p e) = (if parseInt (fst e) = Num 4 then snd e else industry p)"
    "experience (profile_step p e) = (if parseInt (fst e) = Num 10 then snd e else experience p)"
    "careerGoals (profile_step p e) =
       (if parseInt (fst e) = Num 3
        then (case goal_sentence (snd e) of None \<Rightarrow> careerGoals p | Some g \<Rightarrow> g)
        else careerGoals p)"
    by (simp_all add: n_def)
qed

lemma foldl_profile_fields:
  "interests (foldl profile_step p es) =
     interests p @ concat (map (\<lambda>e. interest_tags (snd e)) (entries_for 1 es))"
  "skills (foldl profile_step p es) =
     skills p @ concat (map (\<lambda>e. skill_tags (snd e)) (entries_for 7 es))"
  "workStyle (foldl profile_step p es) = last_or (workStyle p) (map snd (entries_for 2 es))"
  "industry (foldl profile_step p es) = last_or (industry p) (map snd (entries_for 4 es))"
  "experience (foldl profile_step p es) = last_or (experience p) (map snd (entries_for 10 es))"
  "careerGoals (foldl profile_step p es) =
     last_or (careerGoals p) (List.map_filter (\<lambda>e. goal_sentence (snd e)) (entries_for 3 es))"
proof (induction es arbitrary: p)
  case Nil
  {
    case 1 show ?case by (simp add: entries_for_def)
  next
    case 2 show ?case by (simp add: entries_for_def)
  next
    case 3 show ?case by (simp add: entries_for_def)
  next
    case 4 show ?case by (simp add: entries_for_def)
  next
    case 5 show ?case by (simp add: entries_for_def)
  next
    case 6 show ?case by (simp add: entries_for_def map_filter_simps)
  }
next
  case (Cons e es)
  {
    case 1 show ?case
      by (simp add: Cons.IH(1) profile_step_fields(1) entries_for_def)
  next
    case 2 show ?case
      by (simp add: Cons.IH(2) profile_step_fields(2) entries_for_def)
  next
    case 3 show ?case
      by (simp add: Cons.IH(3) profile_step_fields(3) entries_for_def last_or_Cons)
  next
    case 4 show ?case
      by (simp add: Cons.IH(4) profile_step_fields(4) entries_for_def last_or_Cons)
  next
    case 5 show ?case
      by (simp add: Cons.IH(5) profile_step_fields(5) entries_for_def last_or_Cons)
  next
    case 6 show ?case
      by (simp add: Cons.IH(6) profile_step_fields(6) entries_for_def last_or_Cons
          map_filter_simps split: option.splits)
  }
qed

lemma extractProfile_fields:
  "interests (extractProfileFromAnswers es) =
     concat (map (\<lambda>e. interest_tags (snd e)) (entries_for 1 es))"
  "skills (extractProfileFromAnswers es) =
     concat (map (\<lambda>e. skill_tags (snd e)) (entries_for 7 es))"
  "workStyle (extractProfileFromAnswers es) = last_or (Str []) (map snd (entries_for 2 es))"
  "industry (extractProfileFromAnswers es) = last_or (Str []) (map snd (entries_for 4 es))"
  "experience (extractProfileFromAnswers es) = last_or (Str []) (map snd (entries_for 10 es))"
  "careerGoals (extractProfileFromAnswers es) =
     last_or [] (List.map_filter (\<lambda>e. goal_sentence (snd e)) (entries_for 3 es))"
  by (simp_all add: extractProfileFromAnswers_def foldl_profile_fields)

lemma profile_eqI:
  fixes p q :: profile
  assumes "interests p = interests q" "skills p = skills q" "experience p = experience q"
    "workStyle p = workStyle q" "careerGoals p = careerGoals q" "industry p = industry q"
  shows "p = q"
  using assms by (intro profile.equality) simp_all

lemma entries_for_perm:
  assumes "mset es' = mset es" "length (entries_for n es) \<le> 1"
  shows "entries_for n es' = entries_for n es"
proof -
  have m: "mset (entries_for n es') = mset (entries_for n es)"
    using assms(1) by (simp add: entries_for_def)
  show ?thesis
  proof (cases "entries_for n es")
    case Nil
    with m show ?thesis by simp
  next
    case (Cons a as)
    with assms(2) have as: "as = []" by simp
    with m Cons have "mset (entries_for n es') = {#a#}" by simp
    then have "entries_for n es' = [a]" by (cases "entries_for n es'") auto
    with Cons as show ?thesis by simp
  qed
qed

lemma map_snd_single:
  assumes "map snd xs = [v]"
  shows "\<exists>k. xs = [(k, v)]"
  using assms by (cases xs) auto

text \<open>
  Claim C6. \<^verbatim>\<open>extractProfileFromAnswers\<close> has no failing branch and touches nothing but
  its own local record (it is a function of the entries alone), and when no key of the
  answers reads as one of the question ids 1, 2, 3, 4, 7, 10, the empty object included,
  it returns the all-default profile.
\<close>

theorem extractProfile_default:
  assumes "\<forall>e\<in>set entries. parseInt (fst e) \<notin> {Num 1, Num 2, Num 3, Num 4, Num 7, Num 10}"
  shows "extractProfileFromAnswers entries =
     \<lparr>interests = [], skills = [], experience = Str [], workStyle = Str [],
      careerGoals = [], industry = Str []\<rparr>"
proof -
  have none: "entries_for n entries = []" if "n \<in> {1, 2, 3, 4, 7, 10}" for n
    using assms that by (auto simp: entries_for_def filter_empty_conv)
  show ?thesis
    by (rule profile_eqI) (simp_all add: extractProfile_fields none map_filter_simps)
qed

text \<open>Two inputs without a recognized id: keys 5 and \<^verbatim>\<open>abc\<close>, and no entry at all.\<close>

theorem extractProfile_default_witness:
  "parseInt (js ''5'') = Num 5 \<and> parseInt (js ''abc'') = NaN \<and>
   extractProfileFromAnswers [(js ''5'', Str (js ''remote'')), (js ''abc'', Other 0)] =
     \<lparr>interests = [], skills = [], experience = Str [], workStyle = Str [],
      careerGoals = [], industry = Str []\<rparr> \<and>
   extractProfileFromAnswers [] =
     \<lparr>interests = [], skills = [], experience = Str [], workStyle = Str [],
      careerGoals = [], industry = Str []\<rparr>"
proof -
  have a: "parseInt (js ''5'') = Num 5" by code_simp
  have b: "parseInt (js ''abc'') = NaN" by code_simp
  have h: "\<forall>e\<in>set [(js ''5'', Str (js ''remote'')), (js ''abc'', Other 0)].
      parseInt (fst e) \<notin> {Num 1, Num 2, Num 3, Num 4, Num 7, Num 10}"
    by (simp add: a b)
  show ?thesis
    using a b extractProfile_default[OF h] extractProfile_default[of "[]"] by simp
qed

text \<open>
  Claim C8. When the only entry for question 1 answers \<^verbatim>\<open>analytical\<close> and the only entry
  for question 7 answers \<^verbatim>\<open>technical\<close>, whatever the other entries are, \<open>interests\<close> is
  \<^verbatim>\<open>["Problem Solving","Analysis"]\<close> and \<open>skills\<close> is
  \<^verbatim>\<open>["Technical Skills","Programming"]\<close>.
\<close>

theorem extractProfile_analytical_technical:
  assumes "map snd (entries_for 1 entries) = [Str (js ''analytical'')]"
      and "map snd (entries_for 7 entries) = [Str (js ''technical'')]"
  shows "interests (extractProfileFromAnswers entries) = [js ''Problem Solving'', js ''Analysis''] \<and>
         skills (extractProfileFromAnswers entries) = [js ''Technical Skills'', js ''Programming'']"
proof -
  obtain k1 where k1: "entries_for 1 entries = [(k1, Str (js ''analytical''))]"
    using map_snd_single[OF assms(1)] by blast
  obtain k7 where k7: "entries_for 7 entries = [(k7, Str (js ''technical''))]"
    using map_snd_single[OF assms(2)] by blast
  have "interest_tags (Str (js ''analytical'')) = [js ''Problem Solving'', js ''Analysis'']"
    by (simp add: interest_tags_def)
  moreover have "skill_tags (Str (js ''technical'')) = [js ''Technical Skills'', js ''Programming'']"
    by (simp add: skill_tags_def)
  ultimately show ?thesis
    by (simp add: extractProfile_fields k1 k7)
qed

text \<open>The keys used in the examples below, as \<^verbatim>\<open>parseInt\<close> reads them.\<close>

lemma parseInt_keys:
  "parseInt (js ''1'') = Num 1" "parseInt (js ''2'') = Num 2" "parseInt (js ''3'') = Num 3"
  "parseInt (js ''7'') = Num 7" "parseInt (js ''03'') = Num 3"
  by code_simp+

text \<open>The answers \<^verbatim>\<open>{1: "analytical", 2: "remote", 7: "technical"}\<close>.\<close>

theorem extractProfile_analytical_technical_witness:
  "map snd (entries_for 1 [(js ''1'', Str (js ''analytical'')), (js ''2'', Str (js ''remote'')),
       (js ''7'', Str (js ''technical''))]) = [Str (js ''analytical'')] \<and>
   map snd (entries_for 7 [(js ''1'', Str (js ''analytical'')), (js ''2'', Str (js ''remote'')),
       (js ''7'', Str (js ''technical''))]) = [Str (js ''technical'')] \<and>
   interests (extractProfileFromAnswers [(js ''1'', Str (js ''analytical'')),
       (js ''2'', Str (js ''remote'')), (js ''7'', Str (js ''technical''))]) =
     [js ''Problem Solving'', js ''Analysis''] \<and>
   skills (extractProfileFromAnswers [(js ''1'', Str (js ''analytical'')),
       (js ''2'', Str (js ''remote'')), (js ''7'', Str (js ''technical''))]) =
     [js ''Technical Skills'', js ''Programming'']"
proof -
  have h1: "map snd (entries_for 1 [(js ''1'', Str (js ''analytical'')),
      (js ''2'', Str (js ''remote'')), (js ''7'', Str (js ''technical''))]) = [Str (js ''analytical'')]"
    by (simp add: entries_for_def parseInt_keys)
  have h7: "map snd (entries_for 7 [(js ''1'', Str (js ''analytical'')),
      (js ''2'', Str (js ''remote'')), (js ''7'', Str (js ''technical''))]) = [Str (js ''technical'')]"
    by (simp add: entries_for_def parseInt_keys)
  show ?thesis
    using h1 h7 extractProfile_analytical_technical[OF h1 h7] by simp
qed

text \<open>
  Claim C9 as stated fails: both inputs below contain the entry \<^verbatim>\<open>3: "impact"\<close>, yet
  in the second the key \<^verbatim>\<open>"03"\<close> reads as question 3 too, is enumerated after the key
  \<^verbatim>\<open>"3"\<close>, and its sentence replaces the one for \<^verbatim>\<open>impact\<close>.
\<close>

theorem careerGoals_impact_overwritten:
  "careerGoals (extractProfileFromAnswers [(js ''3'', Str (js ''impact''))]) =
     js ''Positive social impact'' \<and>
   careerGoals (extractProfileFromAnswers
     [(js ''3'', Str (js ''impact'')), (js ''03'', Str (js ''financial''))]) =
     js ''Financial success and stability''"
proof -
  have "goal_sentence (Str (js ''impact'')) = Some (js ''Positive social impact'')"
    by (simp add: goal_sentence_def js_def)
  moreover have "goal_sentence (Str (js ''financial'')) = Some (js ''Financial success and stability'')"
    by (simp add: goal_sentence_def)
  ultimately show ?thesis
    by (simp add: extractProfile_fields entries_for_def parseInt_keys map_filter_simps
        last_or_Cons)
qed

text \<open>
  Claim C9, amended. When exactly one entry reads as question 3: if its answer is
  \<^verbatim>\<open>impact\<close>, \<open>careerGoals\<close> is the fixed sentence \<^verbatim>\<open>Positive social impact\<close>, whatever
  the entries for other questions are; if its answer is none of the four recognized codes,
  \<open>careerGoals\<close> stays empty.
\<close>

theorem careerGoals_single_entry:
  assumes "map snd (entries_for 3 entries) = [answer]"
  shows "(answer = Str (js ''impact'') \<longrightarrow>
            careerGoals (extractProfileFromAnswers entries) = js ''Positive social impact'') \<and>
         (answer \<notin> {Str (js ''financial''), Str (js ''impact''), Str (js ''growth''),
                     Str (js ''recognition'')} \<longrightarrow>
            careerGoals (extractProfileFromAnswers entries) = [])"
proof -
  obtain k where k: "entries_for 3 entries = [(k, answer)]"
    using map_snd_single[OF assms] by blast
  have "goal_sentence (Str (js ''impact'')) = Some (js ''Positive social impact'')"
    by (simp add: goal_sentence_def js_def)
  moreover have "goal_sentence answer = None"
    if "answer \<notin> {Str (js ''financial''), Str (js ''impact''), Str (js ''growth''),
                     Str (js ''recognition'')}"
    using that by (simp add: goal_sentence_def)
  ultimately show ?thesis
    by (auto simp: extractProfile_fields k map_filter_simps last_or_Cons)
qed

text \<open>The answers \<^verbatim>\<open>{1: "analytical", 3: "impact"}\<close> and \<^verbatim>\<open>{3: "unknown-code"}\<close>.\<close>

theorem careerGoals_single_entry_witness:
  "map snd (entries_for 3 [(js ''1'', Str (js ''analytical'')), (js ''3'', Str (js ''impact''))]) =
     [Str (js ''impact'')] \<and>
   careerGoals (extractProfileFromAnswers
     [(js ''1'', Str (js ''analytical'')), (js ''3'', Str (js ''impact''))]) =
     js ''Positive social impact'' \<and>
   map snd (entries_for 3 [(js ''3'', Str (js ''unknown-code''))]) = [Str (js ''unknown-code'')] \<and>
   Str (js ''unknown-code'') \<notin> {Str (js ''financial''), Str (js ''impact''), Str (js ''growth''),
                     Str (js ''recognition'')} \<and>
   careerGoals (extractProfileFromAnswers [(js ''3'', Str (js ''unknown-code''))]) = []"
proof -
  have h1: "map snd (entries_for 3 [(js ''1'', Str (js ''analytical'')), (js ''3'', Str (js ''impact''))]) =
     [Str (js ''impact'')]"
    by (simp add: entries_for_def parseInt_keys)
  have h2: "map snd (entries_for 3 [(js ''3'', Str (js ''unknown-code''))]) = [Str (js ''unknown-code'')]"
    by (simp add: entries_for_def parseInt_keys)
  have h3: "Str (js ''unknown-code'') \<notin> {Str (js ''financial''), Str (js ''impact''), Str (js ''growth''),
                     Str (js ''recognition'')}"
    by (simp add: js_def)
  show ?thesis
    using h1 h2 h3 careerGoals_single_entry[OF h1] careerGoals_single_entry[OF h2] by blast
qed

text \<open>
  Claim C7. When at most one entry reads as each of the question ids 1, 2, 3, 4, 7, 10,
  every permutation of the entries yields the same profile.
\<close>

theorem extractProfile_order_independent:
  assumes "mset entries' = mset entries"
      and "\<forall>n\<in>{1, 2, 3, 4, 7, 10}. length (entries_for n entries) \<le> 1"
  shows "extractProfileFromAnswers entries' = extractProfileFromAnswers entries"
proof -
  have same: "entries_for n entries' = entries_for n entries" if "n \<in> {1, 2, 3, 4, 7, 10}" for n
    using entries_for_perm[OF assms(1)] assms(2) that by blast
  show ?thesis
    by (rule profile_eqI) (simp_all add: extractProfile_fields same)
qed

text \<open>Three entries, for questions 1, 3 and 7, enumerated forwards and backwards.\<close>

theorem extractProfile_order_independent_witness:
  "mset [(js ''7'', Str (js ''technical'')), (js ''3'', Str (js ''impact'')), (js ''1'', Str (js ''analytical''))] =
   mset [(js ''1'', Str (js ''analytical'')), (js ''3'', Str (js ''impact'')), (js ''7'', Str (js ''technical''))] \<and>
   map (\<lambda>n. length (entries_for n
      [(js ''1'', Str (js ''analytical'')), (js ''3'', Str (js ''impact'')), (js ''7'', Str (js ''technical''))]))
     [1, 2, 3, 4, 7, 10] = [1, 0, 1, 0, 1, 0] \<and>
   extractProfileFromAnswers
     [(js ''7'', Str (js ''technical'')), (js ''3'', Str (js ''impact'')), (js ''1'', Str (js ''analytical''))] =
   extractProfileFromAnswers
     [(js ''1'', Str (js ''analytical'')), (js ''3'', Str (js ''impact'')), (js ''7'', Str (js ''technical''))]"
proof -
  have h1: "mset [(js ''7'', Str (js ''technical'')), (js ''3'', Str (js ''impact'')), (js ''1'', Str (js ''analytical''))] =
   mset [(js ''1'', Str (js ''analytical'')), (js ''3'', Str (js ''impact'')), (js ''7'', Str (js ''technical''))]"
    by (simp add: add_mset_commute)
  have h2: "map (\<lambda>n. length (entries_for n
      [(js ''1'', Str (js ''analytical'')), (js ''3'', Str (js ''impact'')), (js ''7'', Str (js ''technical''))]))
     [1, 2, 3, 4, 7, 10] = [1, 0, 1, 0, 1, 0]"
    by (simp add: entries_for_def parseInt_keys)
  then have h3: "\<forall>n\<in>{1, 2, 3, 4, 7, 10}. length (entries_for n
      [(js ''1'', Str (js ''analytical'')), (js ''3'', Str (js ''impact'')), (js ''7'', Str (js ''technical''))]) \<le> 1"
    by simp
  show ?thesis
    using h1 h2 extractProfile_order_independent[OF h1 h3] by simp
qed

section \<open>Properties of the matcher and of the response structurer\<close>

lemma find_sub_Some_iff:
  "find_sub pat s = Some i \<longleftrightarrow>
     i \<le> length s \<and> take (length pat) (drop i s) = pat \<and>
     (\<forall>k<i. take (length pat) (drop k s) \<noteq> pat)"
proof (induction s arbitrary: i)
  case Nil
  then show ?case by auto
next
  case (Cons c cs)
  show ?case
  proof (cases "take (length pat) (c # cs) = pat")
    case True
    then show ?thesis by (cases i) auto
  next
    case False
    show ?thesis
    proof (cases i)
      case 0
      with False show ?thesis by simp
    next
      case (Suc j)
      have "(\<forall>k<Suc j. take (length pat) (drop k (c # cs)) \<noteq> pat) \<longleftrightarrow>
            (\<forall>k<j. take (length pat) (drop k cs) \<noteq> pat)"
        using False by (auto simp: less_Suc_eq_0_disj)
      with False Suc Cons.IH[of j] show ?thesis by auto
    qed
  qed
qed

lemma take_eq_iff_prefix: "take (length l) s = l \<longleftrightarrow> prefix l s"
  by (metis append_eq_conv_conj prefix_def)

lemma find_sub_None_iff:
  "find_sub pat s = None \<longleftrightarrow> (\<forall>k\<le>length s. take (length pat) (drop k s) \<noteq> pat)"
proof
  assume "find_sub pat s = None"
  show "\<forall>k\<le>length s. take (length pat) (drop k s) \<noteq> pat"
  proof (rule ccontr)
    assume "\<not> (\<forall>k\<le>length s. take (length pat) (drop k s) \<noteq> pat)"
    then obtain k where k: "k \<le> length s" "take (length pat) (drop k s) = pat" by blast
    define P where "P = (\<lambda>i. take (length pat) (drop i s) = pat)"
    have "\<exists>i. P i" using k by (auto simp: P_def)
    then obtain i where i: "P i" "\<forall>j<i. \<not> P j" using exists_least_iff[of P] by blast
    have "i \<le> k" using i k(2) by (metis P_def not_le_imp_less)
    then have "find_sub pat s = Some i" using i k(1) by (simp add: find_sub_Some_iff P_def)
    with \<open>find_sub pat s = None\<close> show False by simp
  qed
next
  assume a: "\<forall>k\<le>length s. take (length pat) (drop k s) \<noteq> pat"
  show "find_sub pat s = None"
  proof (cases "find_sub pat s")
    case (Some i)
    then have "i \<le> length s \<and> take (length pat) (drop i s) = pat"
      by (simp add: find_sub_Some_iff)
    with a show ?thesis by blast
  qed simp
qed

lemma sublist_iff_index: "sublist pat s \<longleftrightarrow> (\<exists>k\<le>length s. take (length pat) (drop k s) = pat)"
proof
  assume "sublist pat s"
  then obtain ps ss where s: "s = ps @ pat @ ss" by (auto simp: sublist_def)
  have "length ps \<le> length s" by (simp add: s)
  moreover have "take (length pat) (drop (length ps) s) = pat" by (simp add: s)
  ultimately show "\<exists>k\<le>length s. take (length pat) (drop k s) = pat" by blast
next
  assume "\<exists>k\<le>length s. take (length pat) (drop k s) = pat"
  then obtain k where k: "take (length pat) (drop k s) = pat" by blast
  have "s = take k s @ take (length pat) (drop k s) @ drop (length pat) (drop k s)"
    by (metis append_take_drop_id)
  with k show "sublist pat s" unfolding sublist_def by metis
qed

lemma find_sub_None_sublist: "find_sub pat s = None \<longleftrightarrow> \<not> sublist pat s"
  by (simp add: find_sub_None_iff sublist_iff_index)

subsection \<open>Repetition\<close>

lemma lazy_lens_any: "lazy_lens AnyChar s = [0..<Suc (length s)]"
proof (induction s)
  case Nil
  show ?case by simp
next
  case (Cons c cs)
  have "[0..<Suc (length (c # cs))] = 0 # map Suc [0..<Suc (length cs)]"
    by (simp add: upt_conv_Cons map_Suc_upt del: upt_Suc)
  moreover have "lazy_lens AnyChar (c # cs) = 0 # map Suc [0..<Suc (length cs)]"
    by (simp add: Cons del: upt_Suc)
  ultimately show ?case by (simp only:)
qed

lemma greedy_lens_any: "greedy_lens AnyChar s = rev [0..<Suc (length s)]"
proof (induction s)
  case Nil
  show ?case by simp
next
  case (Cons c cs)
  have "[0..<Suc (length (c # cs))] = 0 # map Suc [0..<Suc (length cs)]"
    by (simp add: upt_conv_Cons map_Suc_upt del: upt_Suc)
  moreover have "greedy_lens AnyChar (c # cs) = rev (0 # map Suc [0..<Suc (length cs)])"
    by (simp add: Cons rev_map del: upt_Suc)
  ultimately show ?case by (simp only:)
qed

lemma lazy_lens_set:
  "n \<in> set (lazy_lens cl s) \<longleftrightarrow> n \<le> length s \<and> (\<forall>x\<in>set (take n s). in_class cl x)"
proof (induction s arbitrary: n)
  case Nil
  show ?case by auto
next
  case (Cons c cs)
  show ?case
  proof (cases n)
    case 0
    then show ?thesis by simp
  next
    case (Suc m)
    then show ?thesis using Cons.IH[of m] by auto
  qed
qed

lemma greedy_lens_set:
  "n \<in> set (greedy_lens cl s) \<longleftrightarrow> n \<le> length s \<and> (\<forall>x\<in>set (take n s). in_class cl x)"
proof (induction s arbitrary: n)
  case Nil
  show ?case by auto
next
  case (Cons c cs)
  show ?case
  proof (cases n)
    case 0
    then show ?thesis by simp
  next
    case (Suc m)
    then show ?thesis using Cons.IH[of m] by auto
  qed
qed

subsection \<open>Which states a pattern can reach\<close>

lemma in_rmatch_Lit:
  "(p', s', c') \<in> set (rmatch (Lit l) (p, s, c)) \<longleftrightarrow> s = l @ s' \<and> p' = p + length l \<and> c' = c"
proof -
  have "take (length l) s = l \<and> s' = drop (length l) s \<longleftrightarrow> s = l @ s'"
    by (metis append_eq_conv_conj)
  then show ?thesis by auto
qed

lemma star_split:
  "(\<exists>n. n \<le> length s \<and> (\<forall>x\<in>set (take n s). P x) \<and> s' = drop n s \<and> p' = p + n) \<longleftrightarrow>
   (\<exists>u. (\<forall>x\<in>set u. P x) \<and> s = u @ s' \<and> p' = p + length u)"
proof
  assume "\<exists>n. n \<le> length s \<and> (\<forall>x\<in>set (take n s). P x) \<and> s' = drop n s \<and> p' = p + n"
  then obtain n where n: "n \<le> length s" "\<forall>x\<in>set (take n s). P x" "s' = drop n s" "p' = p + n"
    by blast
  then have "(\<forall>x\<in>set (take n s). P x) \<and> s = take n s @ s' \<and> p' = p + length (take n s)"
    by simp
  then show "\<exists>u. (\<forall>x\<in>set u. P x) \<and> s = u @ s' \<and> p' = p + length u" by blast
next
  assume "\<exists>u. (\<forall>x\<in>set u. P x) \<and> s = u @ s' \<and> p' = p + length u"
  then obtain u where u: "\<forall>x\<in>set u. P x" "s = u @ s'" "p' = p + length u" by blast
  then have "length u \<le> length s \<and> (\<forall>x\<in>set (take (length u) s). P x) \<and>
     s' = drop (length u) s \<and> p' = p + length u" by simp
  then show "\<exists>n. n \<le> length s \<and> (\<forall>x\<in>set (take n s). P x) \<and> s' = drop n s \<and> p' = p + n"
    by blast
qed

lemma in_rmatch_Star:
  "(p', s', c') \<in> set (rmatch (Star cl) (p, s, c)) \<longleftrightarrow>
     (\<exists>u. (\<forall>x\<in>set u. in_class cl x) \<and> s = u @ s' \<and> p' = p + length u) \<and> c' = c"
  unfolding star_split[symmetric] by (auto simp: greedy_lens_set)

lemma in_rmatch_LazyStar:
  "(p', s', c') \<in> set (rmatch (LazyStar cl) (p, s, c)) \<longleftrightarrow>
     (\<exists>u. (\<forall>x\<in>set u. in_class cl x) \<and> s = u @ s' \<and> p' = p + length u) \<and> c' = c"
  unfolding star_split[symmetric] by (auto simp: lazy_lens_set)

lemma in_rmatch_Plus:
  "(p', s', c') \<in> set (rmatch (Plus cl) (p, s, c)) \<longleftrightarrow>
     (\<exists>u. u \<noteq> [] \<and> (\<forall>x\<in>set u. in_class cl x) \<and> s = u @ s' \<and> p' = p + length u) \<and> c' = c"
proof (cases s)
  case Nil
  then show ?thesis by auto
next
  case (Cons x xs)
  have "(p', s', c') \<in> set (rmatch (Plus cl) (p, s, c)) \<longleftrightarrow>
        in_class cl x \<and> (p', s', c') \<in> set (rmatch (Star cl) (Suc p, xs, c))"
    using Cons by auto
  also have "\<dots> \<longleftrightarrow> in_class cl x \<and>
     (\<exists>v. (\<forall>y\<in>set v. in_class cl y) \<and> xs = v @ s' \<and> p' = Suc p + length v) \<and> c' = c"
    by (simp only: in_rmatch_Star)
  also have "\<dots> \<longleftrightarrow>
     (\<exists>u. u \<noteq> [] \<and> (\<forall>x\<in>set u. in_class cl x) \<and> s = u @ s' \<and> p' = p + length u) \<and> c' = c"
  proof -
    have "(in_class cl x \<and> (\<exists>v. (\<forall>y\<in>set v. in_class cl y) \<and> xs = v @ s' \<and> p' = Suc p + length v)) \<longleftrightarrow>
      (\<exists>u. u \<noteq> [] \<and> (\<forall>x\<in>set u. in_class cl x) \<and> s = u @ s' \<and> p' = p + length u)"
    proof
      assume "in_class cl x \<and> (\<exists>v. (\<forall>y\<in>set v. in_class cl y) \<and> xs = v @ s' \<and> p' = Suc p + length v)"
      then obtain v where "in_class cl x" "\<forall>y\<in>set v. in_class cl y" "xs = v @ s'" "p' = Suc p + length v"
        by blast
      then have "x # v \<noteq> [] \<and> (\<forall>y\<in>set (x # v). in_class cl y) \<and> s = (x # v) @ s' \<and> p' = p + length (x # v)"
        using Cons by simp
      then show "\<exists>u. u \<noteq> [] \<and> (\<forall>x\<in>set u. in_class cl x) \<and> s = u @ s' \<and> p' = p + length u" by blast
    next
      assume "\<exists>u. u \<noteq> [] \<and> (\<forall>x\<in>set u. in_class cl x) \<and> s = u @ s' \<and> p' = p + length u"
      then obtain u where u: "u \<noteq> []" "\<forall>x\<in>set u. in_class cl x" "s = u @ s'" "p' = p + length u" by blast
      then obtain y v where yv: "u = y # v" by (cases u) auto
      with u Cons have "y = x" "xs = v @ s'" by simp_all
      with u yv show "in_class cl x \<and> (\<exists>v. (\<forall>y\<in>set v. in_class cl y) \<and> xs = v @ s' \<and> p' = Suc p + length v)"
        by auto
    qed
    then show ?thesis by blast
  qed
  finally show ?thesis .
qed

lemma in_rmatch_Seq:
  "st' \<in> set (rmatch (Seq r1 r2) st) \<longleftrightarrow> (\<exists>m\<in>set (rmatch r1 st). st' \<in> set (rmatch r2 m))"
  by auto

lemma in_rmatch_Group:
  "(p', s', c') \<in> set (rmatch (Group k r) (p, s, c)) \<longleftrightarrow>
     (\<exists>c''. (p', s', c'') \<in> set (rmatch r (p, s, c)) \<and> c' = c''(k \<mapsto> take (p' - p) s))"
  by (auto simp: image_iff) force

lemma in_rmatch_Group_LazyStar:
  "(p', s', c') \<in> set (rmatch (Group k (LazyStar cl)) (p, s, c)) \<longleftrightarrow>
     (\<exists>u. (\<forall>x\<in>set u. in_class cl x) \<and> s = u @ s' \<and> p' = p + length u \<and> c' = c(k \<mapsto> u))"
  unfolding in_rmatch_Group in_rmatch_LazyStar by auto

lemma in_rmatch_Group_Plus:
  "(p', s', c') \<in> set (rmatch (Group k (Plus cl)) (p, s, c)) \<longleftrightarrow>
     (\<exists>u. u \<noteq> [] \<and> (\<forall>x\<in>set u. in_class cl x) \<and> s = u @ s' \<and> p' = p + length u \<and> c' = c(k \<mapsto> u))"
  unfolding in_rmatch_Group in_rmatch_Plus by auto

lemma in_rmatch_Bol:
  "(p', s', c') \<in> set (rmatch Bol (p, s, c)) \<longleftrightarrow> p = 0 \<and> p' = 0 \<and> s' = s \<and> c' = c"
  by auto

lemma in_rmatch_Eol:
  "(p', s', c') \<in> set (rmatch Eol (p, s, c)) \<longleftrightarrow> s = [] \<and> p' = p \<and> s' = [] \<and> c' = c"
  by auto

subsection \<open>The first state of a search\<close>

lemma concat_map_upt_hd:
  "concat (map f [0..<m]) = y # ys \<Longrightarrow> \<exists>n<m. (\<forall>i<n. f i = []) \<and> (\<exists>zs. f n = y # zs)"
proof (induction m arbitrary: ys)
  case 0
  then show ?case by simp
next
  case (Suc m)
  show ?case
  proof (cases "concat (map f [0..<m])")
    case Nil
    then have "\<forall>i<m. f i = []" by auto
    moreover have "concat (map f [0..<Suc m]) = concat (map f [0..<m]) @ f m" by simp
    then have "f m = y # ys" using Nil Suc.prems by (metis append_Nil)
    ultimately show ?thesis by blast
  next
    case (Cons y' ys')
    with Suc.prems have "y' = y" by simp
    with Cons Suc.IH[of ys'] obtain n where "n < m" "\<forall>i<n. f i = []" "\<exists>zs. f n = y # zs"
      by blast
    then show ?thesis using less_Suc_eq by blast
  qed
qed

lemma concat_map_hd_mem:
  "concat (map f xs) = y # ys \<Longrightarrow> \<exists>x\<in>set xs. \<exists>zs. f x = y # zs"
proof (induction xs)
  case Nil
  then show ?case by simp
next
  case (Cons x xs)
  then show ?case by (cases "f x") auto
qed

lemma rmatch_group_lazy_any:
  "rmatch (Seq (Group k (LazyStar AnyChar)) R) (p, s, c) =
     concat (map (\<lambda>n. rmatch R (p + n, drop n s, c(k \<mapsto> take n s))) [0..<Suc (length s)])"
  by (simp add: lazy_lens_any comp_def del: upt_Suc)

lemma find_sub_suffix_None:
  assumes "find_sub M s = None"
  shows "find_sub M (drop k s) = None"
proof -
  have "\<not> sublist M (drop k s)"
  proof
    assume "sublist M (drop k s)"
    then obtain ps ss where "drop k s = ps @ M @ ss" by (auto simp: sublist_def)
    then have "s = (take k s @ ps) @ M @ ss" by (metis append_take_drop_id append_assoc)
    then have "sublist M s" unfolding sublist_def by blast
    with assms show False by (simp add: find_sub_None_sublist)
  qed
  then show ?thesis by (simp add: find_sub_None_sublist)
qed

lemma find_sub_after_run:
  assumes "find_sub M s = Some j" "M \<noteq> []" "hd M \<notin> set a"
  shows "find_sub M (a @ s) = Some (length a + j)"
  using assms(3)
proof (induction a)
  case Nil
  with assms(1) show ?case by simp
next
  case (Cons x a)
  have "take (length M) (x # a @ s) \<noteq> M"
  proof
    assume "take (length M) (x # a @ s) = M"
    then have "hd M = x" using assms(2) by (cases M) auto
    with Cons.prems show False by simp
  qed
  with Cons show ?case by simp
qed

text \<open>
  A lazy group followed by a closing pattern \<open>R\<close> that reads a run \<open>b\<close> (from a family
  \<open>B\<close> of runs free of the first character of \<open>M\<close>) and then the literal \<open>M\<close>: the first
  state found has the group end where the run before the first occurrence of \<open>M\<close> begins.
\<close>

lemma lazy_section_head:
  assumes sound: "\<And>q s c st. st \<in> set (rmatch R (q, s, c)) \<Longrightarrow>
            \<exists>b rest. s = b @ M @ rest \<and> B b \<and> snd (snd st) = c"
      and complete: "\<And>q s c. take (length M) s = M \<Longrightarrow> rmatch R (q, s, c) \<noteq> []"
      and B: "\<And>b. B b \<Longrightarrow> hd M \<notin> set b"
      and M: "M \<noteq> []"
      and head: "rmatch (Seq (Group k (LazyStar AnyChar)) R) (p, s, c) = (e, s1, c1) # others"
  shows "\<exists>g b. c1 = c(k \<mapsto> g) \<and> B b \<and> find_sub M s = Some (length g + length b) \<and>
           take (length g + length b) s = g @ b"
proof -
  from head have "concat (map (\<lambda>n. rmatch R (p + n, drop n s, c(k \<mapsto> take n s)))
      [0..<Suc (length s)]) = (e, s1, c1) # others"
    by (simp only: rmatch_group_lazy_any)
  from concat_map_upt_hd[OF this] obtain n zs where n: "n < Suc (length s)"
      "\<forall>i<n. rmatch R (p + i, drop i s, c(k \<mapsto> take i s)) = []"
      "rmatch R (p + n, drop n s, c(k \<mapsto> take n s)) = (e, s1, c1) # zs"
    by blast
  from n(3) have "(e, s1, c1) \<in> set (rmatch R (p + n, drop n s, c(k \<mapsto> take n s)))" by simp
  from sound[OF this] obtain b rest where b: "drop n s = b @ M @ rest" "B b"
      "c1 = c(k \<mapsto> take n s)" by (auto simp del: fun_upd_apply)
  define g where "g = take n s"
  have len: "length g = n" using n(1) by (simp add: g_def)
  have s: "s = g @ b @ M @ rest" using b(1) by (metis g_def append_take_drop_id)
  have "find_sub M s = Some (n + length b)"
    unfolding find_sub_Some_iff
  proof (intro conjI allI impI)
    show "n + length b \<le> length s" using s len by simp
    show "take (length M) (drop (n + length b) s) = M" using s len by simp
  next
    fix i assume i: "i < n + length b"
    show "take (length M) (drop i s) \<noteq> M"
    proof (cases "i < n")
      case True
      with n(2) have "rmatch R (p + i, drop i s, c(k \<mapsto> take i s)) = []" by blast
      with complete show ?thesis by blast
    next
      case False
      define d where "d = i - n"
      have d: "d < length b" "i = n + d" using i False by (simp_all add: d_def)
      have "drop i s = drop d b @ M @ rest" using s len d by simp
      moreover obtain x xs where x: "drop d b = x # xs" using d(1) by (cases "drop d b") auto
      ultimately have di: "drop i s = x # xs @ M @ rest" by simp
      have "x \<in> set b" using x by (metis in_set_dropD list.set_intros(1))
      with B[OF b(2)] have "x \<noteq> hd M" by blast
      with di M show ?thesis by (cases M) auto
    qed
  qed
  moreover have "take (n + length b) s = g @ b" using s len by simp
  moreover have "c1 = c(k \<mapsto> g)" using b(3) by (simp only: g_def)
  ultimately have "c1 = c(k \<mapsto> g) \<and> B b \<and> find_sub M s = Some (length g + length b) \<and>
           take (length g + length b) s = g @ b"
    using b(2) by (simp only: len simp_thms)
  then show ?thesis by blast
qed

lemma lazy_section_nonempty:
  assumes complete: "\<And>q s c. take (length M) s = M \<Longrightarrow> rmatch R (q, s, c) \<noteq> []"
      and found: "find_sub M s = Some j"
  shows "rmatch (Seq (Group k (LazyStar AnyChar)) R) (p, s, c) \<noteq> []"
proof -
  from found have j: "j \<le> length s" "take (length M) (drop j s) = M"
    by (simp_all add: find_sub_Some_iff)
  then have "rmatch R (p + j, drop j s, c(k \<mapsto> take j s)) \<noteq> []" using complete by blast
  moreover have "j \<in> set [0..<Suc (length s)]" using j(1) by auto
  ultimately show ?thesis unfolding rmatch_group_lazy_any
    by (simp only: concat_eq_Nil_conv set_map) blast
qed

text \<open>The engine moves on to the next start position only where the literal fails.\<close>

lemma rmatch_Seq_Lit:
  "rmatch (Seq (Lit H) R) (p, s, c) =
     (if take (length H) s = H then rmatch R (p + length H, drop (length H) s, c) else [])"
  by simp

lemma exec_at_Cons:
  "exec_at r p (x # xs) =
     (case rmatch r (p, x # xs, no_groups) of
        [] \<Rightarrow> exec_at r (Suc p) xs
      | st # _ \<Rightarrow> Some \<lparr>index = p, end_index = fst st, groups = snd (snd st)\<rparr>)"
  by (simp split: list.splits prod.splits)

lemma exec_at_Nil:
  "exec_at r p [] =
     (case rmatch r (p, [], no_groups) of
        [] \<Rightarrow> None
      | st # _ \<Rightarrow> Some \<lparr>index = p, end_index = fst st, groups = snd (snd st)\<rparr>)"
  by (simp split: list.splits prod.splits)

lemma exec_at_Lit_first:
  assumes mono: "\<And>q q' k s. rmatch R (q, s, no_groups) = [] \<Longrightarrow>
                   rmatch R (q', drop k s, no_groups) = []"
  shows "exec_at (Seq (Lit H) R) p t =
     (case find_sub H t of
        None \<Rightarrow> None
      | Some i \<Rightarrow> first_state (p + i)
                   (rmatch R (p + i + length H, drop (i + length H) t, no_groups)))"
proof (induction t arbitrary: p)
  case Nil
  show ?case
  proof (cases "H = []")
    case True
    then show ?thesis by (simp add: first_state_def split: list.splits)
  next
    case False
    then have "take (length H) [] \<noteq> H" by auto
    then have "rmatch (Seq (Lit H) R) (p, [], no_groups) = []"
      by (simp only: rmatch_Seq_Lit if_False)
    then have "exec_at (Seq (Lit H) R) p [] = None" by (simp only: exec_at_Nil list.case)
    moreover have "find_sub H [] = None" using False by simp
    ultimately show ?thesis by simp
  qed
next
  case (Cons x xs)
  show ?case
  proof (cases "take (length H) (x # xs) = H")
    case True
    then have seq: "rmatch (Seq (Lit H) R) (p, x # xs, no_groups) =
        rmatch R (p + length H, drop (length H) (x # xs), no_groups)"
      by (simp only: rmatch_Seq_Lit refl if_True)
    from True have f: "find_sub H (x # xs) = Some 0" by simp
    show ?thesis
    proof (cases "rmatch R (p + length H, drop (length H) (x # xs), no_groups)")
      case Nil
      have later: "rmatch R (q, drop (i + length H) xs, no_groups) = []" for q i
      proof -
        have "drop (i + length H) xs = drop (Suc i) (drop (length H) (x # xs))"
          by (simp add: add.commute)
        with mono[OF Nil, of q "Suc i"] show ?thesis by (simp only:)
      qed
      have "exec_at (Seq (Lit H) R) (Suc p) xs = None"
      proof (cases "find_sub H xs")
        case None
        then show ?thesis by (simp only: Cons.IH option.case)
      next
        case (Some i)
        then show ?thesis by (simp only: Cons.IH option.case later first_state_def list.case)
      qed
      then have "exec_at (Seq (Lit H) R) p (x # xs) = None"
        using Nil seq by (simp only: exec_at_Cons list.case)
      moreover have "first_state (p + 0)
          (rmatch R (p + 0 + length H, drop (0 + length H) (x # xs), no_groups)) = None"
        using Nil by (simp add: first_state_def)
      ultimately show ?thesis using f by (simp only: option.case)
    next
      case (Cons st sts)
      then have "exec_at (Seq (Lit H) R) p (x # xs) =
          Some \<lparr>index = p, end_index = fst st, groups = snd (snd st)\<rparr>"
        using seq by (simp only: exec_at_Cons list.case)
      moreover have "first_state (p + 0)
          (rmatch R (p + 0 + length H, drop (0 + length H) (x # xs), no_groups)) =
          Some \<lparr>index = p, end_index = fst st, groups = snd (snd st)\<rparr>"
        using Cons by (simp add: first_state_def)
      ultimately show ?thesis using f by (simp only: option.case)
    qed
  next
    case False
    then have "rmatch (Seq (Lit H) R) (p, x # xs, no_groups) = []"
      by (simp only: rmatch_Seq_Lit if_False)
    then have e: "exec_at (Seq (Lit H) R) p (x # xs) = exec_at (Seq (Lit H) R) (Suc p) xs"
      by (simp only: exec_at_Cons list.case)
    from False have f: "find_sub H (x # xs) = map_option Suc (find_sub H xs)" by simp
    show ?thesis
    proof (cases "find_sub H xs")
      case None
      then show ?thesis using e f by (simp only: Cons.IH option.case option.map)
    next
      case (Some i)
      have "first_state (Suc p + i) (rmatch R (Suc p + i + length H, drop (i + length H) xs, no_groups)) =
            first_state (p + Suc i) (rmatch R (p + Suc i + length H, drop (Suc i + length H) (x # xs), no_groups))"
        by simp
      then show ?thesis using e f Some by (simp only: Cons.IH option.case option.map)
    qed
  qed
qed

declare rmatch.simps [simp del]

lemma captured_first_state:
  "captured k (first_state i sts) =
     (case sts of [] \<Rightarrow> None | st # _ \<Rightarrow> Some (snd (snd st) k))"
  by (simp add: captured_def first_state_def split: list.splits)

subsection \<open>A lazy group closed by a literal\<close>

lemma lit_sound:
  assumes "st \<in> set (rmatch (Lit M) (q, s, c))"
  shows "\<exists>b rest. s = b @ M @ rest \<and> b = [] \<and> snd (snd st) = c"
proof -
  obtain p' s' c' where st: "st = (p', s', c')" by (cases st)
  with assms have "s = M @ s'" "c' = c" by (simp_all only: in_rmatch_Lit)
  with st show ?thesis by simp
qed

lemma lit_complete: "take (length M) s = M \<Longrightarrow> rmatch (Lit M) (q, s, c) \<noteq> []"
  by (simp add: rmatch.simps)

lemma lazy_lit_head:
  assumes "M \<noteq> []"
      and "rmatch (Seq (Group k (LazyStar AnyChar)) (Lit M)) (p, s, c) = (e, s1, c1) # others"
  shows "\<exists>j. find_sub M s = Some j \<and> c1 = c(k \<mapsto> take j s)"
proof -
  have "\<exists>g b. c1 = c(k \<mapsto> g) \<and> b = [] \<and> find_sub M s = Some (length g + length b) \<and>
           take (length g + length b) s = g @ b"
    by (rule lazy_section_head[where R = "Lit M" and B = "\<lambda>b. b = []", OF lit_sound lit_complete _ assms])
       simp_all
  then obtain g where "c1 = c(k \<mapsto> g)" "find_sub M s = Some (length g)" "take (length g) s = g"
    by auto
  then show ?thesis by metis
qed

lemma lazy_lit_empty_iff:
  assumes "M \<noteq> []"
  shows "rmatch (Seq (Group k (LazyStar AnyChar)) (Lit M)) (p, s, c) = [] \<longleftrightarrow> find_sub M s = None"
proof
  assume e: "rmatch (Seq (Group k (LazyStar AnyChar)) (Lit M)) (p, s, c) = []"
  show "find_sub M s = None"
  proof (cases "find_sub M s")
    case (Some j)
    from lazy_section_nonempty[of M "Lit M", OF lit_complete Some] e show ?thesis by blast
  qed simp
next
  assume n: "find_sub M s = None"
  show "rmatch (Seq (Group k (LazyStar AnyChar)) (Lit M)) (p, s, c) = []"
  proof (cases "rmatch (Seq (Group k (LazyStar AnyChar)) (Lit M)) (p, s, c)")
    case (Cons st sts)
    obtain e s1 c1 where "st = (e, s1, c1)" by (cases st)
    with Cons lazy_lit_head[OF assms] n show ?thesis by fastforce
  qed simp
qed

lemma captured_lazy_lit:
  assumes "M \<noteq> []"
  shows "captured k (str_match t (Seq (Lit H) (Seq (Group k (LazyStar AnyChar)) (Lit M)))) =
         map_option Some (section_between H M t)"
proof -
  let ?R = "Seq (Group k (LazyStar AnyChar)) (Lit M)"
  have mono: "rmatch ?R (q', drop n s, no_groups) = []" if "rmatch ?R (q, s, no_groups) = []"
    for q q' n s
    using that find_sub_suffix_None[of M s n] by (simp only: lazy_lit_empty_iff[OF assms])
  have ex: "str_match t (Seq (Lit H) ?R) =
     (case find_sub H t of
        None \<Rightarrow> None
      | Some i \<Rightarrow> first_state (0 + i)
                   (rmatch ?R (0 + i + length H, drop (i + length H) t, no_groups)))"
    unfolding str_match_def by (rule exec_at_Lit_first[OF mono])
  show ?thesis
  proof (cases "find_sub H t")
    case None
    then show ?thesis by (simp add: ex section_between_def captured_def)
  next
    case (Some i)
    let ?rest = "drop (i + length H) t"
    show ?thesis
    proof (cases "rmatch ?R (0 + i + length H, ?rest, no_groups)")
      case Nil
      then have "find_sub M ?rest = None" by (simp only: lazy_lit_empty_iff[OF assms])
      with Nil Some show ?thesis
        by (simp add: ex section_between_def captured_first_state)
    next
      case (Cons st sts)
      obtain e s1 c1 where st: "st = (e, s1, c1)" by (cases st)
      from lazy_lit_head[OF assms Cons[unfolded st]] obtain j where
        j: "find_sub M ?rest = Some j" "c1 = no_groups(k \<mapsto> take j ?rest)" by blast
      have "captured k (str_match t (Seq (Lit H) ?R)) = Some (c1 k)"
        using Some Cons st by (simp add: ex captured_first_state)
      with j Some show ?thesis by (simp add: section_between_def)
    qed
  qed
qed

subsection \<open>Trimming\<close>

lemma trim_pad:
  assumes "\<forall>x\<in>set a. is_space x" "\<forall>x\<in>set b. is_space x"
  shows "trim (a @ g @ b) = trim g"
proof -
  have 1: "dropWhile is_space (a @ g @ b) = dropWhile is_space (g @ b)"
    using assms(1) by (simp add: dropWhile_append2)
  show ?thesis
  proof (cases "\<forall>x\<in>set g. is_space x")
    case True
    then have "\<forall>x\<in>set (g @ b). is_space x" using assms(2) by auto
    then have A: "dropWhile is_space (g @ b) = []" by (simp only: dropWhile_eq_Nil_conv)
    have B: "dropWhile is_space g = []" using True by (simp only: dropWhile_eq_Nil_conv)
    show ?thesis by (simp only: trim_def 1 A B)
  next
    case False
    then have "dropWhile is_space (g @ b) = dropWhile is_space g @ b"
      by (auto simp: dropWhile_append1)
    then have "rev (dropWhile is_space (g @ b)) = rev b @ rev (dropWhile is_space g)" by simp
    moreover have "dropWhile is_space (rev b @ rev (dropWhile is_space g)) =
        dropWhile is_space (rev (dropWhile is_space g))"
      by (rule dropWhile_append2) (use assms(2) in simp)
    ultimately show ?thesis by (simp only: trim_def 1)
  qed
qed

lemma trim_pad_left: "\<forall>x\<in>set a. is_space x \<Longrightarrow> trim (a @ g) = trim g"
  using trim_pad[of a "[]" g] by simp

lemma nl_is_space: "\<forall>x\<in>set b. x = 10 \<Longrightarrow> \<forall>x\<in>set b. is_space x"
  by (simp add: is_space_def)

subsection \<open>A lazy group between runs of line feeds, closed by a literal\<close>

lemma nl_lit_sound:
  assumes "st \<in> set (rmatch (Seq (Star (OneOf [10])) (Lit M)) (q, s, c))"
  shows "\<exists>b rest. s = b @ M @ rest \<and> (\<forall>x\<in>set b. x = 10) \<and> snd (snd st) = c"
proof -
  from assms obtain m where m: "m \<in> set (rmatch (Star (OneOf [10])) (q, s, c))"
      "st \<in> set (rmatch (Lit M) m)" by (auto simp only: in_rmatch_Seq)
  obtain p1 s1 c1 where m1: "m = (p1, s1, c1)" by (cases m)
  obtain p2 s2 c2 where st: "st = (p2, s2, c2)" by (cases st)
  from m(1) m1 obtain u where u: "\<forall>x\<in>set u. in_class (OneOf [10]) x" "s = u @ s1" "c1 = c"
    by (auto simp only: in_rmatch_Star)
  from m(2) m1 st have "s1 = M @ s2" "c2 = c1" by (simp_all only: in_rmatch_Lit)
  with u st show ?thesis by auto
qed

lemma nl_lit_complete:
  assumes "take (length M) s = M"
  shows "rmatch (Seq (Star (OneOf [10])) (Lit M)) (q, s, c) \<noteq> []"
proof -
  have "(q, s, c) \<in> set (rmatch (Star (OneOf [10])) (q, s, c))"
    by (simp add: in_rmatch_Star)
  moreover have "(q + length M, drop (length M) s, c) \<in> set (rmatch (Lit M) (q, s, c))"
    using assms by (simp add: in_rmatch_Lit) (metis append_take_drop_id)
  ultimately have "(q + length M, drop (length M) s, c) \<in>
      set (rmatch (Seq (Star (OneOf [10])) (Lit M)) (q, s, c))"
    by (simp only: in_rmatch_Seq) blast
  then show ?thesis by auto
qed

lemma nl_lazy_nl_lit_head:
  assumes M: "M \<noteq> []" "hd M \<noteq> 10"
      and head: "rmatch (Seq (Star (OneOf [10])) (Seq (Group k (LazyStar AnyChar))
                   (Seq (Star (OneOf [10])) (Lit M)))) (p, s, c) = (e, s1, c1) # others"
  shows "\<exists>a g b. c1 = c(k \<mapsto> g) \<and> (\<forall>x\<in>set a. x = 10) \<and> (\<forall>x\<in>set b. x = 10) \<and>
           find_sub M s = Some (length a + length g + length b) \<and>
           take (length a + length g + length b) s = a @ g @ b"
proof -
  let ?R2 = "Seq (Group k (LazyStar AnyChar)) (Seq (Star (OneOf [10])) (Lit M))"
  from head have "concat (map (rmatch ?R2) (rmatch (Star (OneOf [10])) (p, s, c))) =
      (e, s1, c1) # others" by (simp only: rmatch.simps)
  from concat_map_hd_mem[OF this] obtain m zs where
    m: "m \<in> set (rmatch (Star (OneOf [10])) (p, s, c))" "rmatch ?R2 m = (e, s1, c1) # zs"
    by blast
  obtain p' s' c' where m': "m = (p', s', c')" by (cases m)
  from m(1) m' obtain a where a: "\<forall>x\<in>set a. in_class (OneOf [10]) x" "s = a @ s'" "c' = c"
    by (auto simp only: in_rmatch_Star)
  have B: "hd M \<notin> set b" if "\<forall>x\<in>set b. x = 10" for b :: jsstring
    using that M(2) by auto
  have "\<exists>g b. c1 = c'(k \<mapsto> g) \<and> (\<forall>x\<in>set b. x = 10) \<and>
           find_sub M s' = Some (length g + length b) \<and> take (length g + length b) s' = g @ b"
    by (rule lazy_section_head[where R = "Seq (Star (OneOf [10])) (Lit M)"
          and B = "\<lambda>b. \<forall>x\<in>set b. x = 10", OF nl_lit_sound nl_lit_complete B M(1) m(2)[unfolded m']])
  then obtain g b where gb: "c1 = c'(k \<mapsto> g)" "\<forall>x\<in>set b. x = 10"
      "find_sub M s' = Some (length g + length b)" "take (length g + length b) s' = g @ b"
    by blast
  have a10: "\<forall>x\<in>set a. x = 10" using a(1) by simp
  then have "hd M \<notin> set a" using M(2) by auto
  from find_sub_after_run[OF gb(3) M(1) this]
  have "find_sub M s = Some (length a + length g + length b)" by (simp add: a(2) add.assoc)
  moreover have "take (length a + length g + length b) s = a @ g @ b"
    using gb(4) by (simp add: a(2) add.assoc)
  ultimately show ?thesis using gb(1,2) a(3) a10 by blast
qed

lemma nl_lazy_nl_lit_empty_iff:
  assumes M: "M \<noteq> []" "hd M \<noteq> 10"
  shows "rmatch (Seq (Star (OneOf [10])) (Seq (Group k (LazyStar AnyChar))
           (Seq (Star (OneOf [10])) (Lit M)))) (p, s, c) = [] \<longleftrightarrow> find_sub M s = None"
    (is "rmatch ?R (p, s, c) = [] \<longleftrightarrow> _")
proof
  assume e: "rmatch ?R (p, s, c) = []"
  show "find_sub M s = None"
  proof (cases "find_sub M s")
    case (Some j)
    let ?R2 = "Seq (Group k (LazyStar AnyChar)) (Seq (Star (OneOf [10])) (Lit M))"
    have "(p, s, c) \<in> set (rmatch (Star (OneOf [10])) (p, s, c))"
      by (simp add: in_rmatch_Star)
    moreover have "rmatch ?R2 (p, s, c) \<noteq> []"
      by (rule lazy_section_nonempty[of M, OF nl_lit_complete Some])
    ultimately have "concat (map (rmatch ?R2) (rmatch (Star (OneOf [10])) (p, s, c))) \<noteq> []"
      by (simp only: concat_eq_Nil_conv set_map) blast
    with e show ?thesis by (simp only: rmatch.simps)
  qed simp
next
  assume n: "find_sub M s = None"
  show "rmatch ?R (p, s, c) = []"
  proof (cases "rmatch ?R (p, s, c)")
    case (Cons st sts)
    obtain e s1 c1 where "st = (e, s1, c1)" by (cases st)
    with Cons nl_lazy_nl_lit_head[OF M] n show ?thesis by fastforce
  qed simp
qed

lemma captured_lazy_nl_lit:
  assumes M: "M \<noteq> []" "hd M \<noteq> 10"
  shows "map_option (map_option trim)
           (captured k (str_match t (Seq (Lit H) (Seq (Star (OneOf [10]))
              (Seq (Group k (LazyStar AnyChar)) (Seq (Star (OneOf [10])) (Lit M))))))) =
         map_option (\<lambda>sec. Some (trim sec)) (section_between H M t)"
proof -
  let ?R = "Seq (Star (OneOf [10])) (Seq (Group k (LazyStar AnyChar))
              (Seq (Star (OneOf [10])) (Lit M)))"
  have mono: "rmatch ?R (q', drop n s, no_groups) = []" if "rmatch ?R (q, s, no_groups) = []"
    for q q' n s
    using that find_sub_suffix_None[of M s n] by (simp only: nl_lazy_nl_lit_empty_iff[OF M])
  have ex: "str_match t (Seq (Lit H) ?R) =
     (case find_sub H t of
        None \<Rightarrow> None
      | Some i \<Rightarrow> first_state (0 + i)
                   (rmatch ?R (0 + i + length H, drop (i + length H) t, no_groups)))"
    unfolding str_match_def by (rule exec_at_Lit_first[OF mono])
  show ?thesis
  proof (cases "find_sub H t")
    case None
    then show ?thesis by (simp add: ex section_between_def captured_def)
  next
    case (Some i)
    let ?rest = "drop (i + length H) t"
    show ?thesis
    proof (cases "rmatch ?R (0 + i + length H, ?rest, no_groups)")
      case Nil
      then have "find_sub M ?rest = None" by (simp only: nl_lazy_nl_lit_empty_iff[OF M])
      with Nil Some show ?thesis
        by (simp add: ex section_between_def captured_first_state)
    next
      case (Cons st sts)
      obtain e s1 c1 where st: "st = (e, s1, c1)" by (cases st)
      from nl_lazy_nl_lit_head[OF M Cons[unfolded st]] obtain a g b where
        agb: "c1 = no_groups(k \<mapsto> g)" "\<forall>x\<in>set a. x = 10" "\<forall>x\<in>set b. x = 10"
          "find_sub M ?rest = Some (length a + length g + length b)"
          "take (length a + length g + length b) ?rest = a @ g @ b" by blast
      have "captured k (str_match t (Seq (Lit H) ?R)) = Some (Some g)"
        using Some Cons st agb(1) by (simp add: ex captured_first_state)
      moreover have "section_between H M t = Some (a @ g @ b)"
        using Some agb(4,5) by (simp add: section_between_def)
      moreover have "trim (a @ g @ b) = trim g"
        using agb(2,3) by (intro trim_pad nl_is_space)
      ultimately show ?thesis by simp
    qed
  qed
qed

subsection \<open>The rest of the text as a group\<close>

lemma greedy_any_eol_head:
  "\<exists>others. rmatch (Seq (Group k (Star AnyChar)) Eol) (p, s, c) =
      (p + length s, [], c(k \<mapsto> s)) # others"
proof -
  have "greedy_lens AnyChar s = length s # rev [0..<length s]"
    by (simp add: greedy_lens_any)
  then show ?thesis by (simp add: rmatch.simps)
qed

lemma captured_greedy_any_eol:
  "captured k (str_match t (Seq (Lit H) (Seq (Group k (Star AnyChar)) Eol))) =
     map_option Some (section_after H t)"
proof -
  let ?R = "Seq (Group k (Star AnyChar)) Eol"
  have mono: "rmatch ?R (q', drop n s, no_groups) = []" if "rmatch ?R (q, s, no_groups) = []"
    for q q' n s
    using that greedy_any_eol_head[of k q s no_groups] by simp
  have ex: "str_match t (Seq (Lit H) ?R) =
     (case find_sub H t of
        None \<Rightarrow> None
      | Some i \<Rightarrow> first_state (0 + i)
                   (rmatch ?R (0 + i + length H, drop (i + length H) t, no_groups)))"
    unfolding str_match_def by (rule exec_at_Lit_first[OF mono])
  show ?thesis
  proof (cases "find_sub H t")
    case None
    then show ?thesis by (simp add: ex section_after_def captured_def)
  next
    case (Some i)
    obtain others where "rmatch ?R (0 + i + length H, drop (i + length H) t, no_groups) =
      (0 + i + length H + length (drop (i + length H) t), [],
       no_groups(k \<mapsto> drop (i + length H) t)) # others"
      using greedy_any_eol_head by blast
    with Some show ?thesis by (simp add: ex section_after_def captured_first_state)
  qed
qed

lemma lazy_any_eol_mem:
  "st \<in> set (rmatch (Seq (Group k (LazyStar AnyChar)) Eol) (p, s, c)) \<longleftrightarrow>
     st = (p + length s, [], c(k \<mapsto> s))"
proof -
  obtain p' s' c' where st: "st = (p', s', c')" by (cases st)
  have "(p', s', c') \<in> set (rmatch (Seq (Group k (LazyStar AnyChar)) Eol) (p, s, c)) \<longleftrightarrow>
        (\<exists>p1 s1 c1. (p1, s1, c1) \<in> set (rmatch (Group k (LazyStar AnyChar)) (p, s, c)) \<and>
           (p', s', c') \<in> set (rmatch Eol (p1, s1, c1)))"
    by (simp only: in_rmatch_Seq) auto
  also have "\<dots> \<longleftrightarrow> (p', s', c') = (p + length s, [], c(k \<mapsto> s))"
    by (simp only: in_rmatch_Group_LazyStar in_rmatch_Eol) auto
  finally show ?thesis by (simp only: st)
qed

lemma nl_lazy_any_eol_head:
  assumes "rmatch (Seq (Star (OneOf [10])) (Seq (Group k (LazyStar AnyChar)) Eol)) (p, s, c) =
             (e, s1, c1) # others"
  shows "\<exists>a g. c1 = c(k \<mapsto> g) \<and> (\<forall>x\<in>set a. x = 10) \<and> s = a @ g"
proof -
  let ?R2 = "Seq (Group k (LazyStar AnyChar)) Eol"
  from assms have "concat (map (rmatch ?R2) (rmatch (Star (OneOf [10])) (p, s, c))) =
      (e, s1, c1) # others" by (simp only: rmatch.simps)
  from concat_map_hd_mem[OF this] obtain m zs where
    m: "m \<in> set (rmatch (Star (OneOf [10])) (p, s, c))" "rmatch ?R2 m = (e, s1, c1) # zs"
    by blast
  obtain p' s' c' where m': "m = (p', s', c')" by (cases m)
  from m(1) m' obtain a where a: "\<forall>x\<in>set a. in_class (OneOf [10]) x" "s = a @ s'" "c' = c"
    by (auto simp only: in_rmatch_Star)
  from m(2) m' have "(e, s1, c1) \<in> set (rmatch ?R2 (p', s', c'))" by simp
  then have "c1 = c'(k \<mapsto> s')" by (simp only: lazy_any_eol_mem) simp
  with a show ?thesis by auto
qed

lemma nl_lazy_any_eol_nonempty:
  "rmatch (Seq (Star (OneOf [10])) (Seq (Group k (LazyStar AnyChar)) Eol)) (p, s, c) \<noteq> []"
proof -
  let ?R2 = "Seq (Group k (LazyStar AnyChar)) Eol"
  have "(p, s, c) \<in> set (rmatch (Star (OneOf [10])) (p, s, c))"
    by (simp add: in_rmatch_Star)
  moreover have "rmatch ?R2 (p, s, c) \<noteq> []"
    using lazy_any_eol_mem[of "(p + length s, [], c(k \<mapsto> s))" k p s c] by auto
  ultimately have "concat (map (rmatch ?R2) (rmatch (Star (OneOf [10])) (p, s, c))) \<noteq> []"
    by (simp only: concat_eq_Nil_conv set_map) blast
  then show ?thesis by (simp only: rmatch.simps simp_thms)
qed

lemma captured_nl_lazy_any_eol:
  "map_option (map_option trim)
     (captured k (str_match t (Seq (Lit H) (Seq (Star (OneOf [10]))
        (Seq (Group k (LazyStar AnyChar)) Eol))))) =
   map_option (\<lambda>sec. Some (trim sec)) (section_after H t)"
proof -
  let ?R = "Seq (Star (OneOf [10])) (Seq (Group k (LazyStar AnyChar)) Eol)"
  have mono: "rmatch ?R (q', drop n s, no_groups) = []" if "rmatch ?R (q, s, no_groups) = []"
    for q q' n s
    using that nl_lazy_any_eol_nonempty by blast
  have ex: "str_match t (Seq (Lit H) ?R) =
     (case find_sub H t of
        None \<Rightarrow> None
      | Some i \<Rightarrow> first_state (0 + i)
                   (rmatch ?R (0 + i + length H, drop (i + length H) t, no_groups)))"
    unfolding str_match_def by (rule exec_at_Lit_first[OF mono])
  show ?thesis
  proof (cases "find_sub H t")
    case None
    then show ?thesis by (simp add: ex section_after_def captured_def)
  next
    case (Some i)
    let ?rest = "drop (i + length H) t"
    obtain st sts where Cons: "rmatch ?R (0 + i + length H, ?rest, no_groups) = st # sts"
      using nl_lazy_any_eol_nonempty[of k "0 + i + length H" ?rest no_groups]
      by (cases "rmatch ?R (0 + i + length H, ?rest, no_groups)") auto
    obtain e s1 c1 where st: "st = (e, s1, c1)" by (cases st)
    from nl_lazy_any_eol_head[OF Cons[unfolded st]] obtain a g where
      ag: "c1 = no_groups(k \<mapsto> g)" "\<forall>x\<in>set a. x = 10" "?rest = a @ g" by blast
    have "captured k (str_match t (Seq (Lit H) ?R)) = Some (Some g)"
      using Some Cons st ag(1) by (simp add: ex captured_first_state)
    moreover have "section_after H t = Some (a @ g)"
      using Some ag(3) by (simp add: section_after_def)
    moreover have "trim (a @ g) = trim g"
      using ag(2) by (intro trim_pad_left nl_is_space)
    ultimately show ?thesis by simp
  qed
qed

subsection \<open>Patterns anchored at the start\<close>

lemma exec_at_Bol_later: "exec_at (Seq Bol R) (Suc p) s = None"
proof (induction s arbitrary: p)
  case Nil
  show ?case by (simp add: rmatch.simps)
next
  case (Cons x xs)
  have "rmatch (Seq Bol R) (Suc p, x # xs, no_groups) = []" by (simp add: rmatch.simps)
  then show ?case using Cons[of "Suc p"] by (simp only: exec_at_Cons list.case)
qed

lemma str_match_Bol:
  "str_match s (Seq Bol R) = first_state 0 (rmatch R (0, s, no_groups))"
proof -
  have seq: "rmatch (Seq Bol R) (0, s, no_groups) = rmatch R (0, s, no_groups)"
    by (simp add: rmatch.simps)
  show ?thesis
  proof (cases s)
    case Nil
    show ?thesis unfolding str_match_def Nil exec_at_Nil seq[unfolded Nil]
      by (simp add: first_state_def)
  next
    case (Cons x xs)
    show ?thesis unfolding str_match_def Cons exec_at_Cons seq[unfolded Cons] exec_at_Bol_later
      by (simp add: first_state_def)
  qed
qed

subsection \<open>Which states a sequence can reach\<close>

lemma in_rmatch_Seq_states:
  "st' \<in> set (rmatch (Seq r1 r2) st) \<longleftrightarrow>
     (\<exists>p1 s1 c1. (p1, s1, c1) \<in> set (rmatch r1 st) \<and> st' \<in> set (rmatch r2 (p1, s1, c1)))"
  by (simp only: in_rmatch_Seq) auto

lemma in_Seq_Lit:
  "(p', s', c') \<in> set (rmatch (Seq (Lit l) r) (p, s, c)) \<longleftrightarrow>
     (\<exists>s1. s = l @ s1 \<and> (p', s', c') \<in> set (rmatch r (p + length l, s1, c)))"
  unfolding in_rmatch_Seq_states in_rmatch_Lit by blast

lemma in_Seq_Plus:
  "(p', s', c') \<in> set (rmatch (Seq (Plus cl) r) (p, s, c)) \<longleftrightarrow>
     (\<exists>u s1. u \<noteq> [] \<and> (\<forall>x\<in>set u. in_class cl x) \<and> s = u @ s1 \<and>
        (p', s', c') \<in> set (rmatch r (p + length u, s1, c)))"
  unfolding in_rmatch_Seq_states in_rmatch_Plus by blast

lemma in_Seq_Group_LazyStar:
  "(p', s', c') \<in> set (rmatch (Seq (Group k (LazyStar cl)) r) (p, s, c)) \<longleftrightarrow>
     (\<exists>u s1. (\<forall>x\<in>set u. in_class cl x) \<and> s = u @ s1 \<and>
        (p', s', c') \<in> set (rmatch r (p + length u, s1, c(k \<mapsto> u))))"
  unfolding in_rmatch_Seq_states in_rmatch_Group_LazyStar by blast

lemma in_Seq_Group_Plus:
  "(p', s', c') \<in> set (rmatch (Seq (Group k (Plus cl)) r) (p, s, c)) \<longleftrightarrow>
     (\<exists>u s1. u \<noteq> [] \<and> (\<forall>x\<in>set u. in_class cl x) \<and> s = u @ s1 \<and>
        (p', s', c') \<in> set (rmatch r (p + length u, s1, c(k \<mapsto> u))))"
  unfolding in_rmatch_Seq_states in_rmatch_Group_Plus by blast

subsection \<open>The recommendation line\<close>

lemma line_tail_sound:
  assumes "(p', s', c') \<in> set (rmatch line_tail (p, s, c))"
  shows "\<exists>ordinal t d percent.
        s = ordinal @ js ''. '' @ t @ js '' - '' @ d @ js '' Match: '' @ percent @ js ''%'' @ s' \<and>
        ordinal \<noteq> [] \<and> (\<forall>x\<in>set ordinal. is_digit x) \<and>
        (\<forall>x\<in>set t. \<not> is_line_terminator x) \<and>
        (\<forall>x\<in>set d. \<not> is_line_terminator x) \<and>
        percent \<noteq> [] \<and> (\<forall>x\<in>set percent. is_digit x) \<and>
        c' = c(1 \<mapsto> t, 2 \<mapsto> d, 3 \<mapsto> percent)"
proof -
  let ?r7 = "Lit (js ''%'')"
  let ?r6 = "Seq (Group 3 (Plus Digit)) ?r7"
  let ?r5 = "Seq (Lit (js '' Match: '')) ?r6"
  let ?r4 = "Seq (Group 2 (LazyStar Dot)) ?r5"
  let ?r3 = "Seq (Lit (js '' - '')) ?r4"
  let ?r2 = "Seq (Group 1 (LazyStar Dot)) ?r3"
  let ?r1 = "Seq (Lit (js ''. '')) ?r2"
  from assms obtain ordinal s1 where
    a: "ordinal \<noteq> []" "\<forall>x\<in>set ordinal. in_class Digit x" "s = ordinal @ s1" and
    m1: "(p', s', c') \<in> set (rmatch ?r1 (p + length ordinal, s1, c))"
    unfolding line_tail_def in_Seq_Plus by blast
  from m1 obtain s2 where b: "s1 = js ''. '' @ s2" and
    m2: "(p', s', c') \<in> set (rmatch ?r2 (p + length ordinal + length (js ''. ''), s2, c))"
    unfolding in_Seq_Lit by blast
  from m2 obtain t s3 where c: "\<forall>x\<in>set t. in_class Dot x" "s2 = t @ s3" and
    m3: "(p', s', c') \<in> set (rmatch ?r3
           (p + length ordinal + length (js ''. '') + length t, s3, c(1 \<mapsto> t)))"
    unfolding in_Seq_Group_LazyStar by blast
  from m3 obtain s4 where d: "s3 = js '' - '' @ s4" and
    m4: "(p', s', c') \<in> set (rmatch ?r4
           (p + length ordinal + length (js ''. '') + length t + length (js '' - ''), s4,
            c(1 \<mapsto> t)))"
    unfolding in_Seq_Lit by blast
  from m4 obtain de s5 where e: "\<forall>x\<in>set de. in_class Dot x" "s4 = de @ s5" and
    m5: "(p', s', c') \<in> set (rmatch ?r5
           (p + length ordinal + length (js ''. '') + length t + length (js '' - '') + length de,
            s5, c(1 \<mapsto> t, 2 \<mapsto> de)))"
    unfolding in_Seq_Group_LazyStar by blast
  from m5 obtain s6 where f: "s5 = js '' Match: '' @ s6" and
    m6: "(p', s', c') \<in> set (rmatch ?r6
           (p + length ordinal + length (js ''. '') + length t + length (js '' - '') + length de +
            length (js '' Match: ''), s6, c(1 \<mapsto> t, 2 \<mapsto> de)))"
    unfolding in_Seq_Lit by blast
  from m6 obtain percent s7 where g: "percent \<noteq> []" "\<forall>x\<in>set percent. in_class Digit x"
      "s6 = percent @ s7" and
    m7: "(p', s', c') \<in> set (rmatch ?r7
           (p + length ordinal + length (js ''. '') + length t + length (js '' - '') + length de +
            length (js '' Match: '') + length percent, s7, c(1 \<mapsto> t, 2 \<mapsto> de, 3 \<mapsto> percent)))"
    unfolding in_Seq_Group_Plus by blast
  from m7 have h: "s7 = js ''%'' @ s'" "c' = c(1 \<mapsto> t, 2 \<mapsto> de, 3 \<mapsto> percent)"
    unfolding in_rmatch_Lit by blast+
  have "s = ordinal @ js ''. '' @ t @ js '' - '' @ de @ js '' Match: '' @ percent @ js ''%'' @ s'"
    by (simp only: a(3) b c(2) d e(2) f g(3) h(1))
  moreover have "\<forall>x\<in>set ordinal. is_digit x" "\<forall>x\<in>set percent. is_digit x"
    "\<forall>x\<in>set t. \<not> is_line_terminator x" "\<forall>x\<in>set de. \<not> is_line_terminator x"
    using a(2) g(2) c(1) e(1) by simp_all
  ultimately show ?thesis using a(1) g(1) h(2) by blast
qed

lemma line_tail_complete:
  assumes "s = ordinal @ js ''. '' @ t @ js '' - '' @ d @ js '' Match: '' @ percent @ js ''%'' @ s'"
      and "ordinal \<noteq> []" "\<forall>x\<in>set ordinal. is_digit x"
      and "\<forall>x\<in>set t. \<not> is_line_terminator x" "\<forall>x\<in>set d. \<not> is_line_terminator x"
      and "percent \<noteq> []" "\<forall>x\<in>set percent. is_digit x"
  shows "rmatch line_tail (p, s, c) \<noteq> []"
proof -
  let ?r7 = "Lit (js ''%'')"
  let ?r6 = "Seq (Group 3 (Plus Digit)) ?r7"
  let ?r5 = "Seq (Lit (js '' Match: '')) ?r6"
  let ?r4 = "Seq (Group 2 (LazyStar Dot)) ?r5"
  let ?r3 = "Seq (Lit (js '' - '')) ?r4"
  let ?r2 = "Seq (Group 1 (LazyStar Dot)) ?r3"
  let ?r1 = "Seq (Lit (js ''. '')) ?r2"
  define p1 where "p1 = p + length ordinal"
  define p2 where "p2 = p1 + length (js ''. '')"
  define p3 where "p3 = p2 + length t"
  define p4 where "p4 = p3 + length (js '' - '')"
  define p5 where "p5 = p4 + length d"
  define p6 where "p6 = p5 + length (js '' Match: '')"
  define p7 where "p7 = p6 + length percent"
  define p8 where "p8 = p7 + length (js ''%'')"
  define c3 where "c3 = c(1 \<mapsto> t, 2 \<mapsto> d, 3 \<mapsto> percent)"
  have dig: "\<forall>x\<in>set ordinal. in_class Digit x" "\<forall>x\<in>set percent. in_class Digit x"
    and dot: "\<forall>x\<in>set t. in_class Dot x" "\<forall>x\<in>set d. in_class Dot x"
    using assms by simp_all
  have m7: "(p8, s', c3) \<in> set (rmatch ?r7 (p7, js ''%'' @ s', c3))"
    unfolding in_rmatch_Lit p8_def by blast
  have m6: "(p8, s', c3) \<in> set (rmatch ?r6 (p6, percent @ js ''%'' @ s', c(1 \<mapsto> t, 2 \<mapsto> d)))"
    unfolding in_Seq_Group_Plus using m7 assms(6) dig(2) unfolding p7_def c3_def by blast
  have m5: "(p8, s', c3) \<in> set (rmatch ?r5
      (p5, js '' Match: '' @ percent @ js ''%'' @ s', c(1 \<mapsto> t, 2 \<mapsto> d)))"
    unfolding in_Seq_Lit using m6 unfolding p6_def by blast
  have m4: "(p8, s', c3) \<in> set (rmatch ?r4
      (p4, d @ js '' Match: '' @ percent @ js ''%'' @ s', c(1 \<mapsto> t)))"
    unfolding in_Seq_Group_LazyStar using m5 dot(2) unfolding p5_def by blast
  have m3: "(p8, s', c3) \<in> set (rmatch ?r3
      (p3, js '' - '' @ d @ js '' Match: '' @ percent @ js ''%'' @ s', c(1 \<mapsto> t)))"
    unfolding in_Seq_Lit using m4 unfolding p4_def by blast
  have m2: "(p8, s', c3) \<in> set (rmatch ?r2
      (p2, t @ js '' - '' @ d @ js '' Match: '' @ percent @ js ''%'' @ s', c))"
    unfolding in_Seq_Group_LazyStar using m3 dot(1) unfolding p3_def by blast
  have m1: "(p8, s', c3) \<in> set (rmatch ?r1
      (p1, js ''. '' @ t @ js '' - '' @ d @ js '' Match: '' @ percent @ js ''%'' @ s', c))"
    unfolding in_Seq_Lit using m2 unfolding p2_def by blast
  have "(p8, s', c3) \<in> set (rmatch line_tail (p, s, c))"
    unfolding line_tail_def in_Seq_Plus using m1 assms(2) dig(1) unfolding p1_def assms(1) by blast
  then show ?thesis by auto
qed

lemma line_re_tail: "line_re = Seq Bol line_tail"
  by (simp add: line_re_def line_tail_def)

lemma str_match_line:
  "str_match line line_re = first_state 0 (rmatch line_tail (0, line, no_groups))"
  by (simp only: line_re_tail str_match_Bol)

lemma line_match_Some:
  assumes "str_match line line_re = Some m"
  shows "\<exists>ordinal t d percent rest.
        line = ordinal @ js ''. '' @ t @ js '' - '' @ d @ js '' Match: '' @ percent @ js ''%'' @ rest \<and>
        ordinal \<noteq> [] \<and> (\<forall>x\<in>set ordinal. is_digit x) \<and>
        (\<forall>x\<in>set t. \<not> is_line_terminator x) \<and>
        (\<forall>x\<in>set d. \<not> is_line_terminator x) \<and>
        percent \<noteq> [] \<and> (\<forall>x\<in>set percent. is_digit x) \<and>
        groups m 1 = Some t \<and> groups m 2 = Some d \<and> groups m 3 = Some percent"
proof -
  from assms obtain st sts where
    st: "rmatch line_tail (0, line, no_groups) = st # sts"
      "m = \<lparr>index = 0, end_index = fst st, groups = snd (snd st)\<rparr>"
    by (auto simp: str_match_line first_state_def split: list.splits)
  obtain p' s' c' where t: "st = (p', s', c')" by (cases st)
  with st(1) have "(p', s', c') \<in> set (rmatch line_tail (0, line, no_groups))" by simp
  from line_tail_sound[OF this] obtain ordinal t d percent where
    "line = ordinal @ js ''. '' @ t @ js '' - '' @ d @ js '' Match: '' @ percent @ js ''%'' @ s'"
    "ordinal \<noteq> []" "\<forall>x\<in>set ordinal. is_digit x" "\<forall>x\<in>set t. \<not> is_line_terminator x"
    "\<forall>x\<in>set d. \<not> is_line_terminator x" "percent \<noteq> []" "\<forall>x\<in>set percent. is_digit x"
    "c' = no_groups(1 \<mapsto> t, 2 \<mapsto> d, 3 \<mapsto> percent)" by blast
  moreover from this(8) st(2) t have "groups m 1 = Some t" "groups m 2 = Some d"
    "groups m 3 = Some percent" by simp_all
  ultimately show ?thesis by blast
qed

lemma line_match_None_iff: "str_match line line_re = None \<longleftrightarrow> \<not> line_shape line"
proof
  assume n: "str_match line line_re = None"
  show "\<not> line_shape line"
  proof
    assume "line_shape line"
    then obtain ordinal t d percent rest where
      "line = ordinal @ js ''. '' @ t @ js '' - '' @ d @ js '' Match: '' @ percent @ js ''%'' @ rest"
      "ordinal \<noteq> []" "\<forall>x\<in>set ordinal. is_digit x" "\<forall>x\<in>set t. \<not> is_line_terminator x"
      "\<forall>x\<in>set d. \<not> is_line_terminator x" "percent \<noteq> []" "\<forall>x\<in>set percent. is_digit x"
      unfolding line_shape_def by blast
    from line_tail_complete[OF this] have "rmatch line_tail (0, line, no_groups) \<noteq> []" .
    with n show False by (auto simp: str_match_line first_state_def split: list.splits)
  qed
next
  assume n: "\<not> line_shape line"
  show "str_match line line_re = None"
  proof (cases "str_match line line_re")
    case (Some m)
    from line_match_Some[OF this] have "line_shape line" unfolding line_shape_def by blast
    with n show ?thesis by simp
  qed simp
qed

subsection \<open>parseInt on a run of decimal digits\<close>

lemma digit_not_space: "is_digit x \<Longrightarrow> \<not> is_space x"
  by (auto simp: is_digit_def is_space_def)

lemma digit_radix_10: "is_digit x \<Longrightarrow> radix_digit 10 x"
proof -
  assume "is_digit x"
  then have "48 \<le> x" "x \<le> 57" by (simp_all add: is_digit_def)
  then have "unat x \<le> 57" by (simp add: word_le_nat_alt)
  then show ?thesis using \<open>48 \<le> x\<close> \<open>x \<le> 57\<close> by (simp add: radix_digit_def digit_value_def)
qed

lemma parseInt_digits:
  assumes "percent \<noteq> []" "\<forall>x\<in>set percent. is_digit x"
  shows "parseInt percent = to_number (int (digits_value 10 0 percent))"
proof -
  obtain x xs where p: "percent = x # xs" using assms(1) by (cases percent) auto
  have x: "is_digit x" using assms(2) p by simp
  then have xr: "48 \<le> x" "x \<le> 57" by (simp_all add: is_digit_def)
  have 1: "dropWhile is_space percent = percent" using digit_not_space[OF x] p by simp
  have 2: "take 1 percent \<noteq> js ''-''" "take 1 percent \<noteq> js ''+''"
    using xr p by (auto simp: js_def)
  have 3: "take 2 percent \<noteq> js ''0x''" "take 2 percent \<noteq> js ''0X''"
  proof -
    have "\<not> is_digit 120" "\<not> is_digit 88" by (simp_all add: is_digit_def)
    moreover have "\<forall>y\<in>set (take 2 percent). is_digit y" using assms(2) by (meson in_set_takeD)
    ultimately show "take 2 percent \<noteq> js ''0x''" "take 2 percent \<noteq> js ''0X''"
      by (auto simp: js_def)
  qed
  have 4: "takeWhile (radix_digit 10) percent = percent"
    using assms(2) digit_radix_10 by (simp add: takeWhile_eq_all_conv)
  show ?thesis
    unfolding parseInt_def Let_def 1
    by (simp only: 2 3 4 assms(1) if_False simp_thms mult_1)
qed

lemma line_record_None_iff: "line_record line = None \<longleftrightarrow> \<not> line_shape line"
  by (simp add: line_record_def line_match_None_iff[symmetric] split: option.splits)

lemma line_record_Some:
  assumes "line_record line = Some r"
  shows "\<exists>ordinal t d percent rest.
        line = ordinal @ js ''. '' @ t @ js '' - '' @ d @ js '' Match: '' @ percent @ js ''%'' @ rest \<and>
        ordinal \<noteq> [] \<and> (\<forall>x\<in>set ordinal. is_digit x) \<and>
        (\<forall>x\<in>set t. \<not> is_line_terminator x) \<and>
        (\<forall>x\<in>set d. \<not> is_line_terminator x) \<and>
        percent \<noteq> [] \<and> (\<forall>x\<in>set percent. is_digit x) \<and>
        title r = Some t \<and> description r = Some d \<and>
        match r = to_number (int (digits_value 10 0 percent))"
proof -
  from assms obtain m where m: "str_match line line_re = Some m"
    "r = \<lparr>title = groups m 1, description = groups m 2, match = parseInt_group (groups m 3)\<rparr>"
    by (auto simp: line_record_def split: option.splits)
  from line_match_Some[OF m(1)] obtain ordinal t d percent rest where
    l: "line = ordinal @ js ''. '' @ t @ js '' - '' @ d @ js '' Match: '' @ percent @ js ''%'' @ rest"
    "ordinal \<noteq> []" "\<forall>x\<in>set ordinal. is_digit x" "\<forall>x\<in>set t. \<not> is_line_terminator x"
    "\<forall>x\<in>set d. \<not> is_line_terminator x" "percent \<noteq> []" "\<forall>x\<in>set percent. is_digit x"
    "groups m 1 = Some t" "groups m 2 = Some d" "groups m 3 = Some percent" by blast
  have "match r = to_number (int (digits_value 10 0 percent))"
    using m(2) l(10) parseInt_digits[OF l(6,7)] by (simp add: parseInt_group_def)
  moreover have "title r = Some t" "description r = Some d" using m(2) l(8,9) by simp_all
  ultimately show ?thesis using l(1-7) by blast
qed

subsection \<open>The loops over the lines\<close>

lemma push_line_record:
  "push_line recs line = recs @ (case line_record line of None \<Rightarrow> [] | Some r \<Rightarrow> [r])"
  by (simp add: push_line_def line_record_def split: option.splits)

lemma foldl_push_line: "foldl push_line recs ls = recs @ List.map_filter line_record ls"
  by (induction ls arbitrary: recs) (simp_all add: push_line_record map_filter_simps split: option.splits)

lemma push_line_alt_record:
  "push_line_alt recs line =
     Inr (recs @ (case line_record_alt line of None \<Rightarrow> [] | Some r \<Rightarrow> [r]))"
proof (cases "str_match line line_re")
  case None
  then show ?thesis by (simp add: push_line_alt_def line_record_alt_def line_record_def)
next
  case (Some m)
  from line_match_Some[OF this] obtain t d where "groups m 1 = Some t" "groups m 2 = Some d"
    by blast
  with Some show ?thesis
    by (simp add: push_line_alt_def line_record_alt_def line_record_def receiver_def and_then_def)
qed

lemma forEach_alt_records:
  "forEach_alt recs ls = Inr (recs @ List.map_filter line_record_alt ls)"
  by (induction ls arbitrary: recs)
     (simp_all add: push_line_alt_record and_then_def map_filter_simps split: option.splits)

subsection \<open>The three sections of a parsed text\<close>

lemma capture_step:
  assumes "map_option (map_option trim) (captured k mo) = map_option (\<lambda>sec. Some (trim sec)) so"
  shows "(case mo of None \<Rightarrow> Inr st
          | Some m \<Rightarrow> and_then (receiver (groups m k)) (\<lambda>g. K (trim g))) =
         (case so of None \<Rightarrow> Inr st | Some sec \<Rightarrow> K (trim sec))"
proof (cases mo)
  case None
  with assms show ?thesis by (cases so) (simp_all add: captured_def)
next
  case (Some m)
  with assms obtain sec where so: "so = Some sec" by (cases so) (simp_all add: captured_def)
  with assms Some obtain g where "groups m k = Some g" "trim g = trim sec"
    by (cases "groups m k") (simp_all add: captured_def)
  with Some so show ?thesis by (simp add: receiver_def and_then_def)
qed

lemma exact_capture:
  "captured k mo = map_option Some so \<Longrightarrow>
   map_option (map_option trim) (captured k mo) = map_option (\<lambda>sec. Some (trim sec)) so"
  by (cases so) simp_all

lemma markers:
  "js ''**TOP 3'' \<noteq> []" "js ''**NEXT'' \<noteq> []"
  "recommendations_header \<noteq> []" "hd recommendations_header \<noteq> 10"
  "nextSteps_header \<noteq> []" "hd nextSteps_header \<noteq> 10"
  by (simp_all add: js_def recommendations_header_def nextSteps_header_def)

lemma parseAnalysis_sections:
  "parseAnalysis text = Inr
     \<lparr>summary =
        (case section_between summary_header (js ''**TOP 3'') text of
           None \<Rightarrow> [] | Some sec \<Rightarrow> trim sec),
      recommendations =
        (case section_between recommendations_header (js ''**NEXT'') text of
           None \<Rightarrow> [] | Some sec \<Rightarrow> List.map_filter line_record (split_nl (trim sec))),
      nextSteps =
        (case section_after nextSteps_header text of
           None \<Rightarrow> []
         | Some sec \<Rightarrow> map (\<lambda>l. trim (replace_empty l bullet_re)) (split_nl (trim sec)))\<rparr>"
proof -
  have s1: "(case str_match text summary_re of None \<Rightarrow> Inr st
      | Some m \<Rightarrow> and_then (receiver (groups m 1)) (\<lambda>g. Inr (st\<lparr>summary := trim g\<rparr>))) =
     (case section_between summary_header (js ''**TOP 3'') text of
        None \<Rightarrow> Inr st | Some sec \<Rightarrow> Inr (st\<lparr>summary := trim sec\<rparr>))" for st :: analysis
    unfolding summary_re_def summary_header_def
    by (rule capture_step[where K = "\<lambda>x. Inr (st\<lparr>summary := x\<rparr>)"])
       (rule exact_capture, rule captured_lazy_lit, rule markers)
  have s2: "(case str_match text recs_re of None \<Rightarrow> Inr st
      | Some m \<Rightarrow> and_then (receiver (groups m 1))
          (\<lambda>g. Inr (st\<lparr>recommendations :=
                 foldl push_line (recommendations st) (split_nl (trim g))\<rparr>))) =
     (case section_between recommendations_header (js ''**NEXT'') text of
        None \<Rightarrow> Inr st
      | Some sec \<Rightarrow> Inr (st\<lparr>recommendations :=
                 foldl push_line (recommendations st) (split_nl (trim sec))\<rparr>))" for st :: analysis
    unfolding recs_re_def recommendations_header_def
    by (rule capture_step[where K = "\<lambda>x. Inr (st\<lparr>recommendations :=
                 foldl push_line (recommendations st) (split_nl x)\<rparr>)"])
       (rule exact_capture, rule captured_lazy_lit, rule markers)
  have s3: "(case str_match text nextSteps_re of None \<Rightarrow> Inr st
      | Some m \<Rightarrow> and_then (receiver (groups m 1))
          (\<lambda>g. Inr (st\<lparr>nextSteps :=
                 map (\<lambda>l. trim (replace_empty l bullet_re)) (split_nl (trim g))\<rparr>))) =
     (case section_after nextSteps_header text of
        None \<Rightarrow> Inr st
      | Some sec \<Rightarrow> Inr (st\<lparr>nextSteps :=
                 map (\<lambda>l. trim (replace_empty l bullet_re)) (split_nl (trim sec))\<rparr>))" for st :: analysis
    unfolding nextSteps_re_def nextSteps_header_def
    by (rule capture_step[where K = "\<lambda>x. Inr (st\<lparr>nextSteps :=
                 map (\<lambda>l. trim (replace_empty l bullet_re)) (split_nl x)\<rparr>)"])
       (rule exact_capture, rule captured_greedy_any_eol)
  show ?thesis
    unfolding parseAnalysis_def Let_def s1 s2 s3
    by (simp add: and_then_def foldl_push_line split: option.splits)
qed

lemma parseAnalysis_alt_sections:
  "parseAnalysis_alt text = Inr
     \<lparr>summary =
        (case section_between summary_header recommendations_header text of
           None \<Rightarrow> [] | Some sec \<Rightarrow> trim sec),
      recommendations =
        (case section_between recommendations_header nextSteps_header text of
           None \<Rightarrow> [] | Some sec \<Rightarrow> List.map_filter line_record_alt (split_nl (trim sec))),
      nextSteps =
        (case section_after nextSteps_header text of
           None \<Rightarrow> []
         | Some sec \<Rightarrow> map (\<lambda>l. trim (replace_empty l bullet_re_alt)) (split_nl (trim sec)))\<rparr>"
proof -
  have s1: "(case str_match text summary_re_alt of None \<Rightarrow> Inr st
      | Some m \<Rightarrow> and_then (receiver (groups m 1)) (\<lambda>g. Inr (st\<lparr>summary := trim g\<rparr>))) =
     (case section_between summary_header recommendations_header text of
        None \<Rightarrow> Inr st | Some sec \<Rightarrow> Inr (st\<lparr>summary := trim sec\<rparr>))" for st :: analysis
    unfolding summary_re_alt_def summary_header_def
    by (rule capture_step[where K = "\<lambda>x. Inr (st\<lparr>summary := x\<rparr>)"])
       (fold recommendations_header_def, rule captured_lazy_nl_lit, (rule markers)+)
  have s2: "(case str_match text recs_re_alt of None \<Rightarrow> Inr st
      | Some m \<Rightarrow> and_then (receiver (groups m 1))
          (\<lambda>g. and_then (forEach_alt (recommendations st) (split_nl (trim g)))
                 (\<lambda>recs. Inr (st\<lparr>recommendations := recs\<rparr>)))) =
     (case section_between recommendations_header nextSteps_header text of
        None \<Rightarrow> Inr st
      | Some sec \<Rightarrow> and_then (forEach_alt (recommendations st) (split_nl (trim sec)))
                 (\<lambda>recs. Inr (st\<lparr>recommendations := recs\<rparr>)))" for st :: analysis
    unfolding recs_re_alt_def recommendations_header_def
    by (rule capture_step[where K = "\<lambda>x. and_then (forEach_alt (recommendations st) (split_nl x))
                 (\<lambda>recs. Inr (st\<lparr>recommendations := recs\<rparr>))"])
       (fold nextSteps_header_def, rule captured_lazy_nl_lit, (rule markers)+)
  have s3: "(case str_match text nextSteps_re_alt of None \<Rightarrow> Inr st
      | Some m \<Rightarrow> and_then (receiver (groups m 1))
          (\<lambda>g. Inr (st\<lparr>nextSteps :=
                 map (\<lambda>l. trim (replace_empty l bullet_re_alt)) (split_nl (trim g))\<rparr>))) =
     (case section_after nextSteps_header text of
        None \<Rightarrow> Inr st
      | Some sec \<Rightarrow> Inr (st\<lparr>nextSteps :=
                 map (\<lambda>l. trim (replace_empty l bullet_re_alt)) (split_nl (trim sec))\<rparr>))" for st :: analysis
    unfolding nextSteps_re_alt_def nextSteps_header_def
    by (rule capture_step[where K = "\<lambda>x. Inr (st\<lparr>nextSteps :=
                 map (\<lambda>l. trim (replace_empty l bullet_re_alt)) (split_nl x)\<rparr>)"])
       (rule captured_nl_lazy_any_eol)
  show ?thesis
    unfolding parseAnalysis_alt_def Let_def s1 s2 s3
    by (simp add: and_then_def forEach_alt_records split: option.splits)
qed

subsection \<open>Sections and markers\<close>

lemma sublist_find_sub: "sublist pat s \<longleftrightarrow> find_sub pat s \<noteq> None"
  by (simp add: find_sub_None_sublist)

lemma section_between_no_opening: "\<not> sublist H t \<Longrightarrow> section_between H M t = None"
  by (simp add: section_between_def find_sub_None_sublist[symmetric])

lemma section_between_no_closing:
  assumes "\<not> sublist M t"
  shows "section_between H M t = None"
proof -
  from assms have "find_sub M t = None" by (simp add: find_sub_None_sublist)
  then have "find_sub M (drop k t) = None" for k by (rule find_sub_suffix_None)
  then show ?thesis by (simp add: section_between_def split: option.splits)
qed

lemma section_after_no_opening: "\<not> sublist H t \<Longrightarrow> section_after H t = None"
  by (simp add: section_after_def find_sub_None_sublist[symmetric])

lemma section_after_opening: "sublist H t \<Longrightarrow> \<exists>sec. section_after H t = Some sec"
  by (auto simp: section_after_def sublist_find_sub)

lemma split_nl_nonempty: "split_nl s \<noteq> []"
  by (induction s) (auto split: list.splits)

lemma trim_all_space:
  assumes "\<forall>x\<in>set s. is_space x"
  shows "trim s = []"
proof -
  from assms have d: "dropWhile is_space s = []" by (simp only: dropWhile_eq_Nil_conv)
  show ?thesis unfolding trim_def d by simp
qed

lemma strip_empty_line:
  "trim (replace_empty [] bullet_re) = []" "trim (replace_empty [] bullet_re_alt) = []"
  by (simp_all add: replace_empty_def str_match_def bullet_re_def bullet_re_alt_def
      rmatch.simps trim_def)

lemma line_record_alt_match:
  assumes "line_record_alt line = Some r"
  shows "\<exists>r'. line_record line = Some r' \<and> match r = match r'"
  using assms by (auto simp: line_record_alt_def)

subsection \<open>Claims about the response structurer\<close>

text \<open>
  Claim C1 as stated fails when the delimiting markers are the three headers of the
  template: the first text below lacks the second header and the second text lacks the
  third, yet the first variant fills the summary of the one and the recommendations of
  the other, because its patterns close these sections at the prefixes \<^verbatim>\<open>**TOP 3\<close> and
  \<^verbatim>\<open>**NEXT\<close>.
\<close>

theorem sections_closed_by_prefixes:
  "\<not> sublist recommendations_header (js ''**CAREER PROFILE ANALYSIS:** Curious. **TOP 3 jobs'') \<and>
   parseAnalysis (js ''**CAREER PROFILE ANALYSIS:** Curious. **TOP 3 jobs'') =
     Inr \<lparr>summary = js ''Curious.'', recommendations = [], nextSteps = []\<rparr> \<and>
   \<not> sublist nextSteps_header
       (js ''**TOP 3 CAREER RECOMMENDATIONS:**\<newline>1. Chef - Cooks. Match: 90%\<newline>**NEXT UP'') \<and>
   parseAnalysis (js ''**TOP 3 CAREER RECOMMENDATIONS:**\<newline>1. Chef - Cooks. Match: 90%\<newline>**NEXT UP'') =
     Inr \<lparr>summary = [],
          recommendations = [\<lparr>title = Some (js ''Chef''), description = Some (js ''Cooks.''),
                               match = Num 90\<rparr>],
          nextSteps = []\<rparr>"
proof -
  let ?t = "js ''**CAREER PROFILE ANALYSIS:** Curious. **TOP 3 jobs''"
  let ?u = "js ''**TOP 3 CAREER RECOMMENDATIONS:**\<newline>1. Chef - Cooks. Match: 90%\<newline>**NEXT UP''"
  have "find_sub recommendations_header ?t = None" "find_sub nextSteps_header ?u = None"
    by code_simp+
  then have "\<not> sublist recommendations_header ?t" "\<not> sublist nextSteps_header ?u"
    by (simp_all add: sublist_find_sub)
  moreover have "parseAnalysis ?t =
     Inr \<lparr>summary = js ''Curious.'', recommendations = [], nextSteps = []\<rparr>"
    unfolding parseAnalysis_sections by code_simp
  moreover have "parseAnalysis ?u =
     Inr \<lparr>summary = [],
          recommendations = [\<lparr>title = Some (js ''Chef''), description = Some (js ''Cooks.''),
                               match = Num 90\<rparr>],
          nextSteps = []\<rparr>"
    unfolding parseAnalysis_sections map_filter_def by code_simp
  ultimately show ?thesis by simp
qed

text \<open>
  Claim C1, amended. For every input string both variants of \<^verbatim>\<open>parseAnalysis\<close> return a
  StructuredAnalysis: the TypeError branch of the model (a method call on an undefined
  capture group) is never taken. A section keeps its empty default when its opening
  header or its closing marker does not occur in the text, where the closing marker is
  the literal of the regular expression: in the first variant the prefix \<^verbatim>\<open>**TOP 3\<close>
  closes the summary and the prefix \<^verbatim>\<open>**NEXT\<close> the recommendations, in the second
  variant the full headers do; the next steps have an opening header only.
\<close>

theorem parseAnalysis_total:
  "\<exists>a b. parseAnalysis text = Inr a \<and> parseAnalysis_alt text = Inr b \<and>
     (\<not> sublist summary_header text \<or> \<not> sublist (js ''**TOP 3'') text \<longrightarrow> summary a = []) \<and>
     (\<not> sublist recommendations_header text \<or> \<not> sublist (js ''**NEXT'') text \<longrightarrow>
        recommendations a = []) \<and>
     (\<not> sublist nextSteps_header text \<longrightarrow> nextSteps a = []) \<and>
     (\<not> sublist summary_header text \<or> \<not> sublist recommendations_header text \<longrightarrow>
        summary b = []) \<and>
     (\<not> sublist recommendations_header text \<or> \<not> sublist nextSteps_header text \<longrightarrow>
        recommendations b = []) \<and>
     (\<not> sublist nextSteps_header text \<longrightarrow> nextSteps b = [])"
  unfolding parseAnalysis_sections parseAnalysis_alt_sections
  by (auto simp: section_between_no_opening section_between_no_closing section_after_no_opening
      map_filter_simps)

text \<open>A text without any marker.\<close>

theorem parseAnalysis_total_witness:
  "\<not> sublist summary_header (js ''I cannot help with that.'') \<and>
   \<not> sublist recommendations_header (js ''I cannot help with that.'') \<and>
   \<not> sublist nextSteps_header (js ''I cannot help with that.'') \<and>
   parseAnalysis (js ''I cannot help with that.'') =
     Inr \<lparr>summary = [], recommendations = [], nextSteps = []\<rparr> \<and>
   parseAnalysis_alt (js ''I cannot help with that.'') =
     Inr \<lparr>summary = [], recommendations = [], nextSteps = []\<rparr>"
proof -
  let ?t = "js ''I cannot help with that.''"
  have "find_sub summary_header ?t = None" "find_sub recommendations_header ?t = None"
    "find_sub nextSteps_header ?t = None"
    by code_simp+
  then have h: "\<not> sublist summary_header ?t" "\<not> sublist recommendations_header ?t"
    "\<not> sublist nextSteps_header ?t"
    by (simp_all add: sublist_find_sub)
  from parseAnalysis_total[of ?t] obtain a b where
    ab: "parseAnalysis ?t = Inr a" "parseAnalysis_alt ?t = Inr b"
      "summary a = []" "recommendations a = []" "nextSteps a = []"
      "summary b = []" "recommendations b = []" "nextSteps b = []"
    using h by blast
  have "a = \<lparr>summary = [], recommendations = [], nextSteps = []\<rparr>"
       "b = \<lparr>summary = [], recommendations = [], nextSteps = []\<rparr>"
    using ab(3-8) by (auto intro: analysis.equality)
  with ab(1,2) h show ?thesis by simp
qed

text \<open>
  Claim C10. When the text contains the header \<^verbatim>\<open>**NEXT STEPS:**\<close>, \<open>nextSteps\<close> holds one
  element for every line of the trimmed text after the first occurrence of the header,
  stripped of its bullet and trimmed but never dropped, so it has at least one element; a
  section that is empty or all white space yields the one-element list \<^verbatim>\<open>[""]\<close>.
\<close>

theorem nextSteps_never_empty:
  assumes "sublist nextSteps_header text"
  shows "\<exists>a b sec. parseAnalysis text = Inr a \<and> parseAnalysis_alt text = Inr b \<and>
     section_after nextSteps_header text = Some sec \<and>
     nextSteps a = map (\<lambda>l. trim (replace_empty l bullet_re)) (split_nl (trim sec)) \<and>
     nextSteps b = map (\<lambda>l. trim (replace_empty l bullet_re_alt)) (split_nl (trim sec)) \<and>
     1 \<le> length (nextSteps a) \<and> 1 \<le> length (nextSteps b) \<and>
     ((\<forall>x\<in>set sec. is_space x) \<longrightarrow> nextSteps a = [[]] \<and> nextSteps b = [[]])"
proof -
  from section_after_opening[OF assms] obtain sec where
    sec: "section_after nextSteps_header text = Some sec" by blast
  have len: "1 \<le> length (split_nl (trim sec))"
    using split_nl_nonempty[of "trim sec"] by (cases "split_nl (trim sec)") simp_all
  have blank: "split_nl (trim sec) = [[]]" if "\<forall>x\<in>set sec. is_space x"
    using trim_all_space[OF that] by simp
  show ?thesis
    unfolding parseAnalysis_sections parseAnalysis_alt_sections
    using sec len blank by (auto simp: strip_empty_line)
qed

text \<open>
  The header followed by a space and a line feed, and the header followed by two bulleted
  lines of which the second holds nothing but its bullet.
\<close>

theorem nextSteps_never_empty_witness:
  "sublist nextSteps_header (js ''**NEXT STEPS:** \<newline>'') \<and>
   section_after nextSteps_header (js ''**NEXT STEPS:** \<newline>'') = Some (js '' \<newline>'') \<and>
   (\<exists>a b. parseAnalysis (js ''**NEXT STEPS:** \<newline>'') = Inr a \<and>
          parseAnalysis_alt (js ''**NEXT STEPS:** \<newline>'') = Inr b \<and>
          nextSteps a = [[]] \<and> nextSteps b = [[]]) \<and>
   sublist nextSteps_header (js ''**NEXT STEPS:**\<newline>- Learn\<newline>- '') \<and>
   (\<exists>a b. parseAnalysis (js ''**NEXT STEPS:**\<newline>- Learn\<newline>- '') = Inr a \<and>
          parseAnalysis_alt (js ''**NEXT STEPS:**\<newline>- Learn\<newline>- '') = Inr b \<and>
          nextSteps a = [js ''Learn'', []] \<and> nextSteps b = [js ''Learn'', []])"
proof -
  let ?t = "js ''**NEXT STEPS:** \<newline>''"
  let ?u = "js ''**NEXT STEPS:**\<newline>- Learn\<newline>- ''"
  have "find_sub nextSteps_header ?t = Some 0" "find_sub nextSteps_header ?u = Some 0"
    by code_simp+
  then have h: "sublist nextSteps_header ?t" "sublist nextSteps_header ?u"
    by (simp_all add: sublist_find_sub)
  have s: "section_after nextSteps_header ?t = Some (js '' \<newline>'')" by code_simp
  have sp: "\<forall>x\<in>set (js '' \<newline>''). is_space x" by (simp add: js_def is_space_def)
  have 1: "\<exists>a b. parseAnalysis ?t = Inr a \<and> parseAnalysis_alt ?t = Inr b \<and>
          nextSteps a = [[]] \<and> nextSteps b = [[]]"
    using nextSteps_never_empty[OF h(1)] s sp by auto
  have su: "section_after nextSteps_header ?u = Some (js ''\<newline>- Learn\<newline>- '')" by code_simp
  have lines: "map (\<lambda>l. trim (replace_empty l bullet_re))
       (split_nl (trim (js ''\<newline>- Learn\<newline>- ''))) = [js ''Learn'', []]"
    "map (\<lambda>l. trim (replace_empty l bullet_re_alt))
       (split_nl (trim (js ''\<newline>- Learn\<newline>- ''))) = [js ''Learn'', []]"
    by code_simp+
  have 2: "\<exists>a b. parseAnalysis ?u = Inr a \<and> parseAnalysis_alt ?u = Inr b \<and>
          nextSteps a = [js ''Learn'', []] \<and> nextSteps b = [js ''Learn'', []]"
    using nextSteps_never_empty[OF h(2)] su lines by auto
  show ?thesis using h s 1 2 by blast
qed

text \<open>
  Claim C4 as stated fails for the first variant, whose summary is closed by the prefix
  \<^verbatim>\<open>**TOP 3\<close>: the text below does not contain the second header, yet its summary
  is not empty.
\<close>

theorem summary_without_second_header:
  "\<not> sublist recommendations_header (js ''**CAREER PROFILE ANALYSIS:** Curious. **TOP 3 jobs'') \<and>
   parseAnalysis (js ''**CAREER PROFILE ANALYSIS:** Curious. **TOP 3 jobs'') =
     Inr \<lparr>summary = js ''Curious.'', recommendations = [], nextSteps = []\<rparr>"
proof -
  let ?t = "js ''**CAREER PROFILE ANALYSIS:** Curious. **TOP 3 jobs''"
  have "find_sub recommendations_header ?t = None" by code_simp
  then have "\<not> sublist recommendations_header ?t" by (simp add: sublist_find_sub)
  moreover have "parseAnalysis ?t =
     Inr \<lparr>summary = js ''Curious.'', recommendations = [], nextSteps = []\<rparr>"
    unfolding parseAnalysis_sections by code_simp
  ultimately show ?thesis by simp
qed

text \<open>
  Claim C4, amended. The summary is the trimmed text strictly between the first
  occurrence of \<^verbatim>\<open>**CAREER PROFILE ANALYSIS:**\<close> and the first occurrence after it of the
  closing marker, which is the prefix \<^verbatim>\<open>**TOP 3\<close> in the first variant and the full header
  \<^verbatim>\<open>**TOP 3 CAREER RECOMMENDATIONS:**\<close> in the second; it is empty when the first header
  is missing or no closing marker follows it.
\<close>

theorem summary_section:
  "\<exists>a b. parseAnalysis text = Inr a \<and> parseAnalysis_alt text = Inr b \<and>
     summary a =
       (case section_between summary_header (js ''**TOP 3'') text of
          None \<Rightarrow> [] | Some sec \<Rightarrow> trim sec) \<and>
     summary b =
       (case section_between summary_header recommendations_header text of
          None \<Rightarrow> [] | Some sec \<Rightarrow> trim sec)"
  unfolding parseAnalysis_sections parseAnalysis_alt_sections by simp

text \<open>A text with both headers: the two variants agree on its summary.\<close>

theorem summary_section_witness:
  "\<exists>a b. parseAnalysis (js ''**CAREER PROFILE ANALYSIS:**\<newline>Curious.\<newline>**TOP 3 CAREER RECOMMENDATIONS:**'') = Inr a \<and>
     parseAnalysis_alt (js ''**CAREER PROFILE ANALYSIS:**\<newline>Curious.\<newline>**TOP 3 CAREER RECOMMENDATIONS:**'') = Inr b \<and>
     summary a = js ''Curious.'' \<and> summary b = js ''Curious.''"
proof -
  let ?t = "js ''**CAREER PROFILE ANALYSIS:**\<newline>Curious.\<newline>**TOP 3 CAREER RECOMMENDATIONS:**''"
  have 1: "(case section_between summary_header (js ''**TOP 3'') ?t of
          None \<Rightarrow> [] | Some sec \<Rightarrow> trim sec) = js ''Curious.''" by code_simp
  have 2: "(case section_between summary_header recommendations_header ?t of
          None \<Rightarrow> [] | Some sec \<Rightarrow> trim sec) = js ''Curious.''" by code_simp
  from summary_section[of ?t] show ?thesis unfolding 1 2 .
qed

lemma unfinished_text_markers:
  "sublist summary_header unfinished_text" "sublist recommendations_header unfinished_text"
  "\<not> sublist nextSteps_header unfinished_text" "\<not> sublist (js ''**NEXT'') unfinished_text"
proof -
  have "find_sub summary_header unfinished_text = Some 0"
    "find_sub recommendations_header unfinished_text = Some 38"
    "find_sub nextSteps_header unfinished_text = None"
    "find_sub (js ''**NEXT'') unfinished_text = None" by code_simp+
  then show "sublist summary_header unfinished_text"
    "sublist recommendations_header unfinished_text"
    "\<not> sublist nextSteps_header unfinished_text" "\<not> sublist (js ''**NEXT'') unfinished_text"
    by (simp_all add: sublist_find_sub)
qed

lemma unfinished_text_summary:
  "(case section_between summary_header (js ''**TOP 3'') unfinished_text of
      None \<Rightarrow> [] | Some sec \<Rightarrow> trim sec) = js ''Curious.''"
  "(case section_between summary_header recommendations_header unfinished_text of
      None \<Rightarrow> [] | Some sec \<Rightarrow> trim sec) = js ''Curious.''"
  by code_simp+

lemma chef_line_shape: "line_shape (js ''1. Chef - Cooks. Match: 90%'')"
proof -
  have "line_record (js ''1. Chef - Cooks. Match: 90%'') \<noteq> None" by code_simp
  then show ?thesis by (simp add: line_record_None_iff)
qed

text \<open>
  Claim C2 as stated fails: \<open>unfinished_text\<close> contains the first two headers and not
  \<^verbatim>\<open>**NEXT STEPS:**\<close>, and its recommendation section holds a well-formed line, yet
  both variants return no recommendation, because the pattern for that section needs
  its closing marker.
\<close>

theorem recommendations_need_closing_marker:
  "sublist summary_header unfinished_text \<and> sublist recommendations_header unfinished_text \<and>
   \<not> sublist nextSteps_header unfinished_text \<and>
   unfinished_text = summary_header @ js '' Curious. '' @ recommendations_header @
      js ''\<newline>'' @ js ''1. Chef - Cooks. Match: 90%'' \<and>
   line_shape (js ''1. Chef - Cooks. Match: 90%'') \<and>
   parseAnalysis unfinished_text =
     Inr \<lparr>summary = js ''Curious.'', recommendations = [], nextSteps = []\<rparr> \<and>
   parseAnalysis_alt unfinished_text =
     Inr \<lparr>summary = js ''Curious.'', recommendations = [], nextSteps = []\<rparr>"
proof -
  have "unfinished_text = summary_header @ js '' Curious. '' @ recommendations_header @
      js ''\<newline>'' @ js ''1. Chef - Cooks. Match: 90%''"
    by (simp add: unfinished_text_def summary_header_def recommendations_header_def js_def)
  moreover have "parseAnalysis unfinished_text =
      Inr \<lparr>summary = js ''Curious.'', recommendations = [], nextSteps = []\<rparr>"
    unfolding parseAnalysis_sections unfinished_text_summary
    by (simp add: section_between_no_closing section_after_no_opening unfinished_text_markers)
  moreover have "parseAnalysis_alt unfinished_text =
      Inr \<lparr>summary = js ''Curious.'', recommendations = [], nextSteps = []\<rparr>"
    unfolding parseAnalysis_alt_sections unfinished_text_summary
    by (simp add: section_between_no_closing section_after_no_opening unfinished_text_markers)
  ultimately show ?thesis using unfinished_text_markers chef_line_shape by simp
qed

text \<open>
  Claim C2, amended. For every text that does not contain \<^verbatim>\<open>**NEXT STEPS:**\<close>,
  \<open>nextSteps\<close> is empty while the summary is still taken from its own section; the
  recommendations are empty as well, in the second variant always and in the first
  variant unless the text contains \<^verbatim>\<open>**NEXT\<close>.
\<close>

theorem missing_nextSteps_header:
  assumes "\<not> sublist nextSteps_header text"
  shows "\<exists>a b. parseAnalysis text = Inr a \<and> parseAnalysis_alt text = Inr b \<and>
     nextSteps a = [] \<and> nextSteps b = [] \<and>
     summary a =
       (case section_between summary_header (js ''**TOP 3'') text of
          None \<Rightarrow> [] | Some sec \<Rightarrow> trim sec) \<and>
     summary b =
       (case section_between summary_header recommendations_header text of
          None \<Rightarrow> [] | Some sec \<Rightarrow> trim sec) \<and>
     recommendations b = [] \<and>
     (\<not> sublist (js ''**NEXT'') text \<longrightarrow> recommendations a = [])"
  unfolding parseAnalysis_sections parseAnalysis_alt_sections
  using assms
  by (simp add: section_between_no_closing section_after_no_opening)

text \<open>The same text: first two headers, one well-formed line, no third header.\<close>

theorem missing_nextSteps_header_witness:
  "\<not> sublist nextSteps_header unfinished_text \<and> \<not> sublist (js ''**NEXT'') unfinished_text \<and>
   (\<exists>a b. parseAnalysis unfinished_text = Inr a \<and> parseAnalysis_alt unfinished_text = Inr b \<and>
      nextSteps a = [] \<and> nextSteps b = [] \<and> summary a = js ''Curious.'' \<and>
      summary b = js ''Curious.'' \<and> recommendations a = [] \<and> recommendations b = [])"
  using missing_nextSteps_header[OF unfinished_text_markers(3)] unfinished_text_markers(3,4)
  unfolding unfinished_text_summary by blast

lemma in_set_map_filter:
  "r \<in> set (List.map_filter f xs) \<longleftrightarrow> (\<exists>x\<in>set xs. f x = Some r)"
  by (induction xs) (auto simp: map_filter_simps split: option.splits)

lemma length_map_filter:
  "length (List.map_filter f xs) = length (filter (\<lambda>x. f x \<noteq> None) xs)"
  by (induction xs) (auto simp: map_filter_simps split: option.splits)

lemma parse_overfull_text:
  "parseAnalysis overfull_text =
     Inr \<lparr>summary = [],
          recommendations = [\<lparr>title = Some (js ''Chef''), description = Some (js ''Cooks.''),
                               match = Num 150\<rparr>],
          nextSteps = [[]]\<rparr>"
  unfolding parseAnalysis_sections map_filter_def by code_simp

text \<open>
  Claim C3 as stated fails: the section between the second and the third header of
  \<open>early_next_text\<close> has a line of the required shape, but the first variant closes the
  section at the first \<^verbatim>\<open>**NEXT\<close> and returns no recommendation.
\<close>

theorem recommendations_cut_at_NEXT:
  "section_between recommendations_header nextSteps_header early_next_text =
     Some (js ''\<newline>**NEXT UP**\<newline>1. Chef - Cooks. Match: 90%\<newline>'') \<and>
   split_nl (js ''\<newline>**NEXT UP**\<newline>1. Chef - Cooks. Match: 90%\<newline>'') =
     [[], js ''**NEXT UP**'', js ''1. Chef - Cooks. Match: 90%'', []] \<and>
   line_shape (js ''1. Chef - Cooks. Match: 90%'') \<and>
   parseAnalysis early_next_text =
     Inr \<lparr>summary = [], recommendations = [], nextSteps = [[]]\<rparr>"
proof -
  have "section_between recommendations_header nextSteps_header early_next_text =
     Some (js ''\<newline>**NEXT UP**\<newline>1. Chef - Cooks. Match: 90%\<newline>'')" by code_simp
  moreover have "split_nl (js ''\<newline>**NEXT UP**\<newline>1. Chef - Cooks. Match: 90%\<newline>'') =
     [[], js ''**NEXT UP**'', js ''1. Chef - Cooks. Match: 90%'', []]" by code_simp
  moreover have "parseAnalysis early_next_text =
     Inr \<lparr>summary = [], recommendations = [], nextSteps = [[]]\<rparr>"
    unfolding parseAnalysis_sections map_filter_def by code_simp
  ultimately show ?thesis using chef_line_shape by simp
qed

text \<open>
  Claim C3, amended. In the first variant the recommendations are read from the lines of
  the trimmed text between the second header and the first \<^verbatim>\<open>**NEXT\<close> after it: every
  line that begins with the shape \<^verbatim>\<open><ordinal>. <title> - <description> Match: <integer>%\<close>
  gives exactly one record, in line order, built from the parts of that line, and the other
  lines give nothing. When that trimmed text is the single line
  \<^verbatim>\<open>1. Data Scientist - Analyzes data. Match: 85%\<close>, the output is exactly the record with
  title \<^verbatim>\<open>Data Scientist\<close>, description \<^verbatim>\<open>Analyzes data.\<close> and match 85.
\<close>

theorem recommendations_per_line:
  "\<exists>a lines. parseAnalysis text = Inr a \<and>
     lines = (case section_between recommendations_header (js ''**NEXT'') text of
                None \<Rightarrow> [] | Some sec \<Rightarrow> split_nl (trim sec)) \<and>
     recommendations a = List.map_filter line_record lines \<and>
     length (recommendations a) = length (filter line_shape lines) \<and>
     (\<forall>line. (line_record line \<noteq> None) = line_shape line) \<and>
     (\<forall>line r. line_record line = Some r \<longrightarrow>
        (\<exists>ordinal t d percent rest.
           line = ordinal @ js ''. '' @ t @ js '' - '' @ d @ js '' Match: '' @ percent @
                  js ''%'' @ rest \<and>
           title r = Some t \<and> description r = Some d \<and>
           match r = to_number (int (digits_value 10 0 percent)))) \<and>
     (lines = [js ''1. Data Scientist - Analyzes data. Match: 85%''] \<longrightarrow>
        recommendations a =
          [\<lparr>title = Some (js ''Data Scientist''), description = Some (js ''Analyzes data.''),
            match = Num 85\<rparr>])"
proof -
  have shape: "(line_record line \<noteq> None) = line_shape line" for line
    by (simp add: line_record_None_iff)
  have parts: "\<exists>ordinal t d percent rest.
           line = ordinal @ js ''. '' @ t @ js '' - '' @ d @ js '' Match: '' @ percent @
                  js ''%'' @ rest \<and>
           title r = Some t \<and> description r = Some d \<and>
           match r = to_number (int (digits_value 10 0 percent))"
    if "line_record line = Some r" for line r
    using line_record_Some[OF that] by blast
  have ds: "line_record (js ''1. Data Scientist - Analyzes data. Match: 85%'') =
     Some \<lparr>title = Some (js ''Data Scientist''), description = Some (js ''Analyzes data.''),
           match = Num 85\<rparr>"
    by code_simp
  define lines where "lines = (case section_between recommendations_header (js ''**NEXT'') text of
                None \<Rightarrow> [] | Some sec \<Rightarrow> split_nl (trim sec))"
  have recs: "(case section_between recommendations_header (js ''**NEXT'') text of
           None \<Rightarrow> [] | Some sec \<Rightarrow> List.map_filter line_record (split_nl (trim sec))) =
        List.map_filter line_record lines"
    by (simp add: lines_def map_filter_simps split: option.splits)
  have len: "length (List.map_filter line_record lines) = length (filter line_shape lines)"
    unfolding length_map_filter shape ..
  have single: "List.map_filter line_record lines =
          [\<lparr>title = Some (js ''Data Scientist''), description = Some (js ''Analyzes data.''),
            match = Num 85\<rparr>]"
    if "lines = [js ''1. Data Scientist - Analyzes data. Match: 85%'']"
    by (simp add: that map_filter_simps ds)
  have "\<exists>a. parseAnalysis text = Inr a \<and>
      recommendations a = List.map_filter line_record lines"
    unfolding parseAnalysis_sections recs by simp
  then obtain a where a: "parseAnalysis text = Inr a"
    "recommendations a = List.map_filter line_record lines" by blast
  have 1: "length (recommendations a) = length (filter line_shape lines)"
    unfolding a(2) by (rule len)
  have 2: "\<forall>line. (line_record line \<noteq> None) = line_shape line"
    using shape by blast
  have 3: "\<forall>line r. line_record line = Some r \<longrightarrow>
        (\<exists>ordinal t d percent rest.
           line = ordinal @ js ''. '' @ t @ js '' - '' @ d @ js '' Match: '' @ percent @
                  js ''%'' @ rest \<and>
           title r = Some t \<and> description r = Some d \<and>
           match r = to_number (int (digits_value 10 0 percent)))"
    using parts by blast
  have 4: "lines = [js ''1. Data Scientist - Analyzes data. Match: 85%''] \<longrightarrow>
        recommendations a =
          [\<lparr>title = Some (js ''Data Scientist''), description = Some (js ''Analyzes data.''),
            match = Num 85\<rparr>]"
    unfolding a(2) using single by blast
  show ?thesis
    by (intro exI[of _ a] exI[of _ lines] conjI a lines_def 1 2 3 4)
qed

text \<open>All three headers around the single line of the claim.\<close>

theorem recommendations_per_line_witness:
  "(case section_between recommendations_header (js ''**NEXT'')
      (js ''**CAREER PROFILE ANALYSIS:** Curious.\<newline>**TOP 3 CAREER RECOMMENDATIONS:**\<newline>1. Data Scientist - Analyzes data. Match: 85%\<newline>**NEXT STEPS:**\<newline>- Learn'') of
      None \<Rightarrow> [] | Some sec \<Rightarrow> split_nl (trim sec)) =
     [js ''1. Data Scientist - Analyzes data. Match: 85%''] \<and>
   (\<exists>a. parseAnalysis
      (js ''**CAREER PROFILE ANALYSIS:** Curious.\<newline>**TOP 3 CAREER RECOMMENDATIONS:**\<newline>1. Data Scientist - Analyzes data. Match: 85%\<newline>**NEXT STEPS:**\<newline>- Learn'') = Inr a \<and>
      recommendations a =
        [\<lparr>title = Some (js ''Data Scientist''), description = Some (js ''Analyzes data.''),
          match = Num 85\<rparr>])"
proof -
  let ?t = "js ''**CAREER PROFILE ANALYSIS:** Curious.\<newline>**TOP 3 CAREER RECOMMENDATIONS:**\<newline>1. Data Scientist - Analyzes data. Match: 85%\<newline>**NEXT STEPS:**\<newline>- Learn''"
  have l: "(case section_between recommendations_header (js ''**NEXT'') ?t of
      None \<Rightarrow> [] | Some sec \<Rightarrow> split_nl (trim sec)) =
     [js ''1. Data Scientist - Analyzes data. Match: 85%'']" by code_simp
  from recommendations_per_line[of ?t] l show ?thesis by auto
qed

text \<open>
  Claim C5 as stated fails: the only recommendation line of \<open>overfull_text\<close> reads
  \<^verbatim>\<open>Match: 150%\<close>, and the record keeps 150.
\<close>

theorem match_above_100:
  "parseAnalysis overfull_text =
     Inr \<lparr>summary = [],
          recommendations = [\<lparr>title = Some (js ''Chef''), description = Some (js ''Cooks.''),
                               match = Num 150\<rparr>],
          nextSteps = [[]]\<rparr>"
  by (rule parse_overfull_text)

lemma digits_value_snoc:
  "digits_value R acc (ds @ [c]) = digits_value R acc ds * R + digit_value c"
  by (induction ds arbitrary: acc) simp_all

lemma digit_value_decimal: "is_digit c \<Longrightarrow> digit_value c = unat c - 48"
  by (simp add: is_digit_def digit_value_def)

text \<open>The accumulator of \<^verbatim>\<open>parseInt\<close> computes the positional value of a run of digits.\<close>

lemma digits_value_positional:
  assumes "\<forall>x\<in>set ds. is_digit x"
  shows "digits_value 10 0 ds =
     (\<Sum>i<length ds. (unat (ds ! i) - 48) * 10 ^ (length ds - 1 - i))"
  using assms
proof (induction ds rule: rev_induct)
  case Nil
  show ?case by simp
next
  case (snoc c ds)
  have IH: "digits_value 10 0 ds =
     (\<Sum>i<length ds. (unat (ds ! i) - 48) * 10 ^ (length ds - 1 - i))"
    using snoc by simp
  have c: "digit_value c = unat c - 48" using snoc.prems by (simp add: digit_value_decimal)
  have "(\<Sum>i<length (ds @ [c]). (unat ((ds @ [c]) ! i) - 48) * 10 ^ (length (ds @ [c]) - 1 - i)) =
        (\<Sum>i<length ds. (unat ((ds @ [c]) ! i) - 48) * 10 ^ (length ds - i)) + (unat c - 48)"
    by simp
  also have "(\<Sum>i<length ds. (unat ((ds @ [c]) ! i) - 48) * 10 ^ (length ds - i)) =
        (\<Sum>i<length ds. ((unat (ds ! i) - 48) * 10 ^ (length ds - 1 - i)) * 10)"
  proof (rule sum.cong)
    fix i assume "i \<in> {..<length ds}"
    then have i: "i < length ds" by simp
    then have "length ds - i = Suc (length ds - 1 - i)" by simp
    then show "(unat ((ds @ [c]) ! i) - 48) * 10 ^ (length ds - i) =
        ((unat (ds ! i) - 48) * 10 ^ (length ds - 1 - i)) * 10"
      using i by (simp add: nth_append)
  qed simp
  also have "\<dots> = (\<Sum>i<length ds. (unat (ds ! i) - 48) * 10 ^ (length ds - 1 - i)) * 10"
    by (simp add: sum_distrib_right)
  finally show ?case by (simp add: digits_value_snoc IH c)
qed

text \<open>
  Claim C5, amended. Every record of either variant was built from a line of its
  recommendation section that splits as ordinal, title, description, digits and rest
  around the fixed parts of the shape, with the record's title and description (trimmed
  in the second variant) as the middle parts; its match value is the number written in
  decimal by that non-empty run of digits between \<^verbatim>\<open>Match: \<close> and the percent sign: a
  non-negative integer, exact up to \<open>2^53\<close>, that nothing bounds by 100.
\<close>

theorem match_is_digits_value:
  "\<exists>a b lines_a lines_b. parseAnalysis text = Inr a \<and> parseAnalysis_alt text = Inr b \<and>
     lines_a = (case section_between recommendations_header (js ''**NEXT'') text of
                  None \<Rightarrow> [] | Some sec \<Rightarrow> split_nl (trim sec)) \<and>
     lines_b = (case section_between recommendations_header nextSteps_header text of
                  None \<Rightarrow> [] | Some sec \<Rightarrow> split_nl (trim sec)) \<and>
     (\<forall>r\<in>set (recommendations a). \<exists>line\<in>set lines_a. \<exists>ordinal t d percent rest.
        line = ordinal @ js ''. '' @ t @ js '' - '' @ d @ js '' Match: '' @ percent @
               js ''%'' @ rest \<and>
        title r = Some t \<and> description r = Some d \<and>
        percent \<noteq> [] \<and> (\<forall>x\<in>set percent. is_digit x) \<and>
        match r = to_number (int (digits_value 10 0 percent)) \<and>
        digits_value 10 0 percent =
          (\<Sum>i<length percent. (unat (percent ! i) - 48) * 10 ^ (length percent - 1 - i))) \<and>
     (\<forall>r\<in>set (recommendations b). \<exists>line\<in>set lines_b. \<exists>ordinal t d percent rest.
        line = ordinal @ js ''. '' @ t @ js '' - '' @ d @ js '' Match: '' @ percent @
               js ''%'' @ rest \<and>
        title r = Some (trim t) \<and> description r = Some (trim d) \<and>
        percent \<noteq> [] \<and> (\<forall>x\<in>set percent. is_digit x) \<and>
        match r = to_number (int (digits_value 10 0 percent)) \<and>
        digits_value 10 0 percent =
          (\<Sum>i<length percent. (unat (percent ! i) - 48) * 10 ^ (length percent - 1 - i)))"
proof -
  define lines_a where "lines_a =
    (case section_between recommendations_header (js ''**NEXT'') text of
       None \<Rightarrow> [] | Some sec \<Rightarrow> split_nl (trim sec))"
  define lines_b where "lines_b =
    (case section_between recommendations_header nextSteps_header text of
       None \<Rightarrow> [] | Some sec \<Rightarrow> split_nl (trim sec))"
  have recs_a: "(case section_between recommendations_header (js ''**NEXT'') text of
           None \<Rightarrow> [] | Some sec \<Rightarrow> List.map_filter line_record (split_nl (trim sec))) =
        List.map_filter line_record lines_a"
    by (simp add: lines_a_def map_filter_simps split: option.splits)
  have recs_b: "(case section_between recommendations_header nextSteps_header text of
           None \<Rightarrow> [] | Some sec \<Rightarrow> List.map_filter line_record_alt (split_nl (trim sec))) =
        List.map_filter line_record_alt lines_b"
    by (simp add: lines_b_def map_filter_simps split: option.splits)
  have "\<exists>a. parseAnalysis text = Inr a \<and>
      recommendations a = List.map_filter line_record lines_a"
    unfolding parseAnalysis_sections recs_a by simp
  then obtain a where a: "parseAnalysis text = Inr a"
    "recommendations a = List.map_filter line_record lines_a" by blast
  have "\<exists>b. parseAnalysis_alt text = Inr b \<and>
      recommendations b = List.map_filter line_record_alt lines_b"
    unfolding parseAnalysis_alt_sections recs_b by simp
  then obtain b where b: "parseAnalysis_alt text = Inr b"
    "recommendations b = List.map_filter line_record_alt lines_b" by blast
  have A: "\<forall>r\<in>set (recommendations a). \<exists>line\<in>set lines_a. \<exists>ordinal t d percent rest.
        line = ordinal @ js ''. '' @ t @ js '' - '' @ d @ js '' Match: '' @ percent @
               js ''%'' @ rest \<and>
        title r = Some t \<and> description r = Some d \<and>
        percent \<noteq> [] \<and> (\<forall>x\<in>set percent. is_digit x) \<and>
        match r = to_number (int (digits_value 10 0 percent)) \<and>
        digits_value 10 0 percent =
          (\<Sum>i<length percent. (unat (percent ! i) - 48) * 10 ^ (length percent - 1 - i))"
  proof
    fix r assume "r \<in> set (recommendations a)"
    then obtain line where l: "line \<in> set lines_a" "line_record line = Some r"
      unfolding a(2) in_set_map_filter by blast
    from line_record_Some[OF l(2)] obtain ordinal t d percent rest where
      p: "line = ordinal @ js ''. '' @ t @ js '' - '' @ d @ js '' Match: '' @ percent @
               js ''%'' @ rest"
        "percent \<noteq> []" "\<forall>x\<in>set percent. is_digit x"
        "title r = Some t" "description r = Some d"
        "match r = to_number (int (digits_value 10 0 percent))" by blast
    note v = digits_value_positional[OF p(3)]
    from l(1) p v show "\<exists>line\<in>set lines_a. \<exists>ordinal t d percent rest.
        line = ordinal @ js ''. '' @ t @ js '' - '' @ d @ js '' Match: '' @ percent @
               js ''%'' @ rest \<and>
        title r = Some t \<and> description r = Some d \<and>
        percent \<noteq> [] \<and> (\<forall>x\<in>set percent. is_digit x) \<and>
        match r = to_number (int (digits_value 10 0 percent)) \<and>
        digits_value 10 0 percent =
          (\<Sum>i<length percent. (unat (percent ! i) - 48) * 10 ^ (length percent - 1 - i))"
      by blast
  qed
  have B: "\<forall>r\<in>set (recommendations b). \<exists>line\<in>set lines_b. \<exists>ordinal t d percent rest.
        line = ordinal @ js ''. '' @ t @ js '' - '' @ d @ js '' Match: '' @ percent @
               js ''%'' @ rest \<and>
        title r = Some (trim t) \<and> description r = Some (trim d) \<and>
        percent \<noteq> [] \<and> (\<forall>x\<in>set percent. is_digit x) \<and>
        match r = to_number (int (digits_value 10 0 percent)) \<and>
        digits_value 10 0 percent =
          (\<Sum>i<length percent. (unat (percent ! i) - 48) * 10 ^ (length percent - 1 - i))"
  proof
    fix r assume "r \<in> set (recommendations b)"
    then obtain line where l: "line \<in> set lines_b" "line_record_alt line = Some r"
      unfolding b(2) in_set_map_filter by blast
    from l(2) obtain r' where r': "line_record line = Some r'"
      "title r = map_option trim (title r')" "description r = map_option trim (description r')"
      "match r = match r'"
      by (auto simp: line_record_alt_def)
    from line_record_Some[OF r'(1)] obtain ordinal t d percent rest where
      p: "line = ordinal @ js ''. '' @ t @ js '' - '' @ d @ js '' Match: '' @ percent @
               js ''%'' @ rest"
        "percent \<noteq> []" "\<forall>x\<in>set percent. is_digit x"
        "title r' = Some t" "description r' = Some d"
        "match r' = to_number (int (digits_value 10 0 percent))" by blast
    note v = digits_value_positional[OF p(3)]
    have q: "title r = Some (trim t)" "description r = Some (trim d)"
      "match r = to_number (int (digits_value 10 0 percent))"
      using r'(2,3,4) p(4,5,6) by simp_all
    from l(1) p(1,2,3) q v show "\<exists>line\<in>set lines_b. \<exists>ordinal t d percent rest.
        line = ordinal @ js ''. '' @ t @ js '' - '' @ d @ js '' Match: '' @ percent @
               js ''%'' @ rest \<and>
        title r = Some (trim t) \<and> description r = Some (trim d) \<and>
        percent \<noteq> [] \<and> (\<forall>x\<in>set percent. is_digit x) \<and>
        match r = to_number (int (digits_value 10 0 percent)) \<and>
        digits_value 10 0 percent =
          (\<Sum>i<length percent. (unat (percent ! i) - 48) * 10 ^ (length percent - 1 - i))"
      by blast
  qed
  show ?thesis
    by (intro exI[of _ a] exI[of _ b] exI[of _ lines_a] exI[of _ lines_b] conjI
        a(1) b(1) lines_a_def lines_b_def A B)
qed

text \<open>
  The record of \<open>overfull_text\<close>: its line is \<^verbatim>\<open>1. Chef - Cooks. Match: 150%\<close>, title
  and description are \<^verbatim>\<open>Chef\<close> and \<^verbatim>\<open>Cooks.\<close>, and the digits are worth 150.
\<close>

theorem match_is_digits_value_witness:
  "\<exists>a r ordinal percent rest. parseAnalysis overfull_text = Inr a \<and>
     recommendations a = [r] \<and>
     js ''1. Chef - Cooks. Match: 150%'' =
       ordinal @ js ''. '' @ js ''Chef'' @ js '' - '' @ js ''Cooks.'' @ js '' Match: '' @
       percent @ js ''%'' @ rest \<and>
     percent \<noteq> [] \<and> match r = to_number (int (digits_value 10 0 percent)) \<and>
     match r = Num 150"
proof -
  from match_is_digits_value[of overfull_text] obtain a lines_a where
    a: "parseAnalysis overfull_text = Inr a"
       "lines_a = (case section_between recommendations_header (js ''**NEXT'') overfull_text of
                  None \<Rightarrow> [] | Some sec \<Rightarrow> split_nl (trim sec))"
       "\<forall>r\<in>set (recommendations a). \<exists>line\<in>set lines_a. \<exists>ordinal t d percent rest.
        line = ordinal @ js ''. '' @ t @ js '' - '' @ d @ js '' Match: '' @ percent @
               js ''%'' @ rest \<and>
        title r = Some t \<and> description r = Some d \<and>
        percent \<noteq> [] \<and> (\<forall>x\<in>set percent. is_digit x) \<and>
        match r = to_number (int (digits_value 10 0 percent)) \<and>
        digits_value 10 0 percent =
          (\<Sum>i<length percent. (unat (percent ! i) - 48) * 10 ^ (length percent - 1 - i))"
    by blast
  have lines: "(case section_between recommendations_header (js ''**NEXT'') overfull_text of
                  None \<Rightarrow> [] | Some sec \<Rightarrow> split_nl (trim sec)) =
      [js ''1. Chef - Cooks. Match: 150%'']" by code_simp
  define r where "r = \<lparr>title = Some (js ''Chef''), description = Some (js ''Cooks.''),
                               match = Num 150\<rparr>"
  from a(1)[symmetric] parse_overfull_text
  have "Inr a = (Inr \<lparr>summary = [], recommendations = [r], nextSteps = [[]]\<rparr> :: js_error + analysis)"
    unfolding r_def by (rule trans)
  then have ar: "a = \<lparr>summary = [], recommendations = [r], nextSteps = [[]]\<rparr>"
    by (simp only: sum.inject)
  then have rs: "recommendations a = [r]" by simp
  then have "r \<in> set (recommendations a)" by simp
  with a(3) obtain line ordinal t d percent rest where
    p: "line \<in> set lines_a"
       "line = ordinal @ js ''. '' @ t @ js '' - '' @ d @ js '' Match: '' @ percent @
               js ''%'' @ rest"
       "title r = Some t" "description r = Some d" "percent \<noteq> []"
       "match r = to_number (int (digits_value 10 0 percent))" by blast
  from p(1) have l: "line = js ''1. Chef - Cooks. Match: 150%''"
    unfolding a(2) lines by simp
  from p(3,4) have td: "t = js ''Chef''" "d = js ''Cooks.''" by (simp_all add: r_def)
  have m: "match r = Num 150" by (simp add: r_def)
  from p(2) have "js ''1. Chef - Cooks. Match: 150%'' =
       ordinal @ js ''. '' @ js ''Chef'' @ js '' - '' @ js ''Cooks.'' @ js '' Match: '' @
       percent @ js ''%'' @ rest"
    unfolding l td .
  with a(1) rs p(5,6) m show ?thesis by blast
qed

end
